theory Spec2Isabelle
  imports Main "HOL-Library.Word"
begin

section \<open>Buffers\<close>

text \<open>
  A Node \<open>Buffer\<close> is a sequence of bytes. The container code only reads
  \<open>length\<close>, writes with \<open>copy\<close> and slices with \<open>subarray\<close>.
\<close>

type_synonym byte = "8 word"
type_synonym buffer = "byte list"

text \<open>A JavaScript string is a sequence of 16-bit code units.\<close>

type_synonym jsstring = "16 word list"

text \<open>
  \<open>Buffer.allocUnsafe(size)\<close> hands out \<open>size\<close> bytes of memory that is not
  cleared. The previous contents of that memory are the parameter \<open>mem\<close>.
\<close>

definition allocUnsafe :: "(nat \<Rightarrow> byte) \<Rightarrow> nat \<Rightarrow> buffer" where
  "allocUnsafe mem n = map mem [0..<n]"

text \<open>
  \<open>source.copy(target, targetStart)\<close> writes \<open>source\<close> into \<open>target\<close> from
  index \<open>targetStart\<close> on. Nothing is written when \<open>targetStart\<close> is at or behind the
  end of \<open>target\<close>, and the copy is cut where \<open>target\<close> ends. The model returns the
  new contents of \<open>target\<close>.
\<close>

definition copy :: "buffer \<Rightarrow> buffer \<Rightarrow> nat \<Rightarrow> buffer" where
  "copy source target targetStart =
     (if targetStart \<ge> length target then target
      else let nb = min (length source) (length target - targetStart)
           in take targetStart target @ take nb source @ drop (targetStart + nb) target)"

text \<open>
  \<open>buffer.subarray(start, end)\<close> with both indices clamped to the length; an end
  before the start gives the empty buffer. \<open>buffer.subarray(start)\<close> runs to the end.
  The result is a view on the memory of \<open>buffer\<close>; the code does not write to either
  afterwards, so the model takes the bytes.
\<close>

definition subarray :: "buffer \<Rightarrow> nat \<Rightarrow> nat \<Rightarrow> buffer" where
  "subarray buf start stop =
     (let s = min start (length buf); e = min stop (length buf)
      in take (e - s) (drop s buf))"

definition subarray_from :: "buffer \<Rightarrow> nat \<Rightarrow> buffer" where
  "subarray_from buf start = subarray buf start (length buf)"

section \<open>UTF-8\<close>

text \<open>
  \<open>encrypt\<close> turns its string into bytes with \<open>cipher.update(data, 'utf-8')\<close>, the
  constructor with \<open>Buffer.from(masterPassword, 'utf-8')\<close>, and \<open>decrypt\<close> turns
  bytes into a string with \<open>toString('utf-8')\<close>. Node reads a string as code points: a
  lead surrogate followed by a trail surrogate is one code point, and a surrogate
  without its partner is replaced by U+FFFD.
\<close>

definition is_lead :: "16 word \<Rightarrow> bool" where
  "is_lead u \<longleftrightarrow> 0xD800 \<le> unat u \<and> unat u \<le> 0xDBFF"

definition is_trail :: "16 word \<Rightarrow> bool" where
  "is_trail u \<longleftrightarrow> 0xDC00 \<le> unat u \<and> unat u \<le> 0xDFFF"

definition is_surrogate :: "16 word \<Rightarrow> bool" where
  "is_surrogate u \<longleftrightarrow> 0xD800 \<le> unat u \<and> unat u \<le> 0xDFFF"

definition unit_code_point :: "16 word \<Rightarrow> nat" where
  "unit_code_point u = (if is_surrogate u then 0xFFFD else unat u)"

definition pair_code_point :: "16 word \<Rightarrow> 16 word \<Rightarrow> nat" where
  "pair_code_point u v = 0x10000 + (unat u - 0xD800) * 0x400 + (unat v - 0xDC00)"

fun code_points :: "jsstring \<Rightarrow> nat list" where
  "code_points [] = []"
| "code_points [u] = [unit_code_point u]"
| "code_points (u # v # s) =
     (if is_lead u \<and> is_trail v then pair_code_point u v # code_points s
      else unit_code_point u # code_points (v # s))"

text \<open>The one to four bytes of a code point.\<close>

definition utf8_bytes :: "nat \<Rightarrow> buffer" where
  "utf8_bytes c =
     (if c < 0x80 then [of_nat c]
      else if c < 0x800 then [of_nat (0xC0 + c div 64), of_nat (0x80 + c mod 64)]
      else if c < 0x10000 then
        [of_nat (0xE0 + c div 4096), of_nat (0x80 + c div 64 mod 64), of_nat (0x80 + c mod 64)]
      else
        [of_nat (0xF0 + c div 262144), of_nat (0x80 + c div 4096 mod 64),
         of_nat (0x80 + c div 64 mod 64), of_nat (0x80 + c mod 64)])"

definition utf8_encode :: "jsstring \<Rightarrow> buffer" where
  "utf8_encode s = concat (map utf8_bytes (code_points s))"

text \<open>
  Decoding follows the decoder of the Encoding Standard. The state is the code point
  collected so far, the number of continuation bytes still needed and the range allowed
  for the next byte; a byte outside of that range ends the sequence with U+FFFD and is
  read again as the start of a new sequence.
\<close>

function utf8_decoder :: "nat \<Rightarrow> nat \<Rightarrow> nat \<Rightarrow> nat \<Rightarrow> nat list \<Rightarrow> nat list" where
  "utf8_decoder cp needed lower upper [] = (if needed \<noteq> 0 then [0xFFFD] else [])"
| "utf8_decoder cp needed lower upper (b # bs) =
     (if needed = 0 then
        (if b \<le> 0x7F then b # utf8_decoder 0 0 0x80 0xBF bs
         else if 0xC2 \<le> b \<and> b \<le> 0xDF then utf8_decoder (b mod 32) 1 0x80 0xBF bs
         else if 0xE0 \<le> b \<and> b \<le> 0xEF then
           utf8_decoder (b mod 16) 2 (if b = 0xE0 then 0xA0 else 0x80)
             (if b = 0xED then 0x9F else 0xBF) bs
         else if 0xF0 \<le> b \<and> b \<le> 0xF4 then
           utf8_decoder (b mod 8) 3 (if b = 0xF0 then 0x90 else 0x80)
             (if b = 0xF4 then 0x8F else 0xBF) bs
         else 0xFFFD # utf8_decoder 0 0 0x80 0xBF bs)
      else if \<not> (lower \<le> b \<and> b \<le> upper) then 0xFFFD # utf8_decoder 0 0 0x80 0xBF (b # bs)
      else if needed = 1 then (cp * 64 + b mod 64) # utf8_decoder 0 0 0x80 0xBF bs
      else utf8_decoder (cp * 64 + b mod 64) (needed - 1) 0x80 0xBF bs)"
  by pat_completeness auto
termination
  by (relation "measure (\<lambda>(cp, needed, lower, upper, bs). 2 * length bs + (if needed = 0 then 0 else 1))")
     auto

definition code_units :: "nat \<Rightarrow> jsstring" where
  "code_units c =
     (if c < 0x10000 then [of_nat c]
      else [of_nat (0xD800 + (c - 0x10000) div 0x400), of_nat (0xDC00 + (c - 0x10000) mod 0x400)])"

definition utf8_decode :: "buffer \<Rightarrow> jsstring" where
  "utf8_decode buf = concat (map code_units (utf8_decoder 0 0 0x80 0xBF (map unat buf)))"

text \<open>The code points that UTF-8 can carry: all but the surrogates.\<close>

definition scalar_value :: "nat \<Rightarrow> bool" where
  "scalar_value c \<longleftrightarrow> c < 0x110000 \<and> \<not> (0xD800 \<le> c \<and> c \<le> 0xDFFF)"

text \<open>A string is well formed when every surrogate in it is part of a pair.\<close>

fun well_formed :: "jsstring \<Rightarrow> bool" where
  "well_formed [] = True"
| "well_formed [u] = (\<not> is_surrogate u)"
| "well_formed (u # v # s) =
     (if is_lead u then is_trail v \<and> well_formed s
      else \<not> is_surrogate u \<and> well_formed (v # s))"

section \<open>Errors\<close>

text \<open>
  Every failure of the code is a thrown \<open>Error\<close>. The constructors keep what the
  message is built from:
  \<^item> \<open>LengthError f k n\<close>: "\<open>f\<close> deve ter exatamente \<open>k\<close> bytes (recebido: \<open>n\<close>)",
    thrown by \<open>packData\<close>;
  \<^item> \<open>CorruptedFile k n\<close>: "Arquivo corrompido: tamanho minimo \<open>k\<close> bytes
    (recebido: \<open>n\<close>)", thrown by \<open>unpackData\<close>;
  \<^item> \<open>UnableToAuthenticate\<close>: the error of \<open>decipher.final()\<close> when the
    authentication tag does not verify ("Unsupported state or unable to authenticate
    data", the same for every AEAD algorithm of \<open>node:crypto\<close>);
  \<^item> \<open>CryptoError msg\<close>: any other error thrown by \<open>node:crypto\<close> (a bad key, IV or
    tag length, \<open>scrypt\<close> out of memory).
\<close>

datatype field = Salt1 | Salt2 | IV1 | IV2 | AuthTag1 | AuthTag2

datatype error =
    LengthError field nat nat
  | CorruptedFile nat nat
  | UnableToAuthenticate
  | CryptoError string

section \<open>The data of types.ts\<close>

text \<open>
  \<open>EncryptedData\<close> is what \<open>encrypt\<close> returns, every field a base64 string;
  \<open>UnpackedData\<close> is what \<open>unpackData\<close> returns, every field a buffer.
\<close>

record EncryptedData =
  salt1 :: jsstring
  salt2 :: jsstring
  iv1 :: jsstring
  iv2 :: jsstring
  authTag1 :: jsstring
  authTag2 :: jsstring
  ciphertext :: jsstring

record UnpackedData =
  salt1 :: buffer
  salt2 :: buffer
  iv1 :: buffer
  iv2 :: buffer
  authTag1 :: buffer
  authTag2 :: buffer
  encryptedData :: buffer

section \<open>The container: packData and unpackData\<close>

text \<open>
  \<open>packData\<close> checks the six lengths in the order of its parameters, allocates
  \<open>88 + encryptedData.length\<close> bytes and copies the seven buffers at the offsets
  0, 16, 32, 44, 56, 72 and 88.
\<close>

definition packData ::
  "(nat \<Rightarrow> byte) \<Rightarrow> buffer \<Rightarrow> buffer \<Rightarrow> buffer \<Rightarrow> buffer \<Rightarrow> buffer \<Rightarrow> buffer \<Rightarrow> buffer
     \<Rightarrow> error + buffer" where
  "packData mem s1 s2 i1 i2 t1 t2 payload =
     (if length s1 \<noteq> 16 then Inl (LengthError Salt1 16 (length s1))
      else if length s2 \<noteq> 16 then Inl (LengthError Salt2 16 (length s2))
      else if length i1 \<noteq> 12 then Inl (LengthError IV1 12 (length i1))
      else if length i2 \<noteq> 12 then Inl (LengthError IV2 12 (length i2))
      else if length t1 \<noteq> 16 then Inl (LengthError AuthTag1 16 (length t1))
      else if length t2 \<noteq> 16 then Inl (LengthError AuthTag2 16 (length t2))
      else
        let totalSize = 88 + length payload;
            packed = allocUnsafe mem totalSize;
            offset = 0;
            packed = copy s1 packed offset;
            offset = offset + 16;
            packed = copy s2 packed offset;
            offset = offset + 16;
            packed = copy i1 packed offset;
            offset = offset + 12;
            packed = copy i2 packed offset;
            offset = offset + 12;
            packed = copy t1 packed offset;
            offset = offset + 16;
            packed = copy t2 packed offset;
            offset = offset + 16;
            packed = copy payload packed offset
        in Inr packed)"

definition HEADER_SIZE :: nat where
  "HEADER_SIZE = 88"

definition unpackData :: "buffer \<Rightarrow> error + UnpackedData" where
  "unpackData buf =
     (if length buf < HEADER_SIZE then Inl (CorruptedFile HEADER_SIZE (length buf))
      else
        let offset = 0;
            s1 = subarray buf offset (offset + 16);
            offset = offset + 16;
            s2 = subarray buf offset (offset + 16);
            offset = offset + 16;
            i1 = subarray buf offset (offset + 12);
            offset = offset + 12;
            i2 = subarray buf offset (offset + 12);
            offset = offset + 12;
            t1 = subarray buf offset (offset + 16);
            offset = offset + 16;
            t2 = subarray buf offset (offset + 16);
            offset = offset + 16;
            payload = subarray_from buf offset
        in Inr \<lparr>salt1 = s1, salt2 = s2, iv1 = i1, iv2 = i2,
                authTag1 = t1, authTag2 = t2, encryptedData = payload\<rparr>)"

text \<open>The fields have the lengths that \<open>packData\<close> accepts.\<close>

definition valid_lengths ::
  "buffer \<Rightarrow> buffer \<Rightarrow> buffer \<Rightarrow> buffer \<Rightarrow> buffer \<Rightarrow> buffer \<Rightarrow> bool" where
  "valid_lengths s1 s2 i1 i2 t1 t2 \<longleftrightarrow>
     length s1 = 16 \<and> length s2 = 16 \<and> length i1 = 12 \<and> length i2 = 12 \<and>
     length t1 = 16 \<and> length t2 = 16"

text \<open>
  The bytes of \<open>buf\<close> at the offsets \<open>[a, b)\<close> of the layout table.
\<close>

definition bytes_at :: "buffer \<Rightarrow> nat \<Rightarrow> nat \<Rightarrow> buffer" where
  "bytes_at buf a b = map (\<lambda>i. buf ! i) [a..<b]"

text \<open>The argument of \<open>packData\<close> that an error names, and the length it must have.\<close>

fun field_arg ::
  "field \<Rightarrow> buffer \<Rightarrow> buffer \<Rightarrow> buffer \<Rightarrow> buffer \<Rightarrow> buffer \<Rightarrow> buffer \<Rightarrow> buffer" where
  "field_arg Salt1 s1 s2 i1 i2 t1 t2 = s1"
| "field_arg Salt2 s1 s2 i1 i2 t1 t2 = s2"
| "field_arg IV1 s1 s2 i1 i2 t1 t2 = i1"
| "field_arg IV2 s1 s2 i1 i2 t1 t2 = i2"
| "field_arg AuthTag1 s1 s2 i1 i2 t1 t2 = t1"
| "field_arg AuthTag2 s1 s2 i1 i2 t1 t2 = t2"

fun field_length :: "field \<Rightarrow> nat" where
  "field_length Salt1 = 16"
| "field_length Salt2 = 16"
| "field_length IV1 = 12"
| "field_length IV2 = 12"
| "field_length AuthTag1 = 16"
| "field_length AuthTag2 = 16"

section \<open>The primitives of node:crypto and Buffer\<close>

text \<open>
  The class calls \<open>crypto.randomBytes\<close>, \<open>crypto.scrypt\<close>,
  \<open>crypto.createCipheriv\<close>, \<open>crypto.createDecipheriv\<close> and the base64 codec of
  \<open>Buffer\<close>. They are not part of the repository, so they are a parameter of the
  model, one record of functions:
  \<^item> \<open>randomBytes n\<close> draws \<open>n\<close> bytes from a generator state \<open>'g\<close>;
  \<^item> \<open>scrypt password salt keylen options\<close> is the derived key or the error passed
  to the callback;
  \<^item> \<open>cipher algorithm key iv authTagLength data\<close> stands for
  \<open>createCipheriv\<close>, \<open>update\<close>, \<open>final\<close> and \<open>getAuthTag\<close>: the ciphertext
  (the output of \<open>update\<close> followed by that of \<open>final\<close>) and the tag;
  \<^item> \<open>decipher algorithm key iv authTagLength tag data\<close> stands for
  \<open>createDecipheriv\<close>, \<open>setAuthTag\<close>, \<open>update\<close> and \<open>final\<close>: the output of
  \<open>update\<close> followed by that of \<open>final\<close>, or the error thrown (by \<open>final\<close> when
  the tag does not verify);
  \<^item> \<open>toBase64\<close> is \<open>buf.toString('base64')\<close> and \<open>fromBase64\<close> is
  \<open>Buffer.from(s, 'base64')\<close>.
\<close>

datatype algorithm = AES_256_GCM | CHACHA20_POLY1305

datatype scrypt_options = ScryptOptions nat nat nat

record 'g node =
  randomBytes :: "nat \<Rightarrow> 'g \<Rightarrow> buffer \<times> 'g"
  scrypt :: "buffer \<Rightarrow> buffer \<Rightarrow> nat \<Rightarrow> scrypt_options \<Rightarrow> error + buffer"
  cipher :: "algorithm \<Rightarrow> buffer \<Rightarrow> buffer \<Rightarrow> nat option \<Rightarrow> buffer \<Rightarrow> error + buffer \<times> buffer"
  decipher ::
    "algorithm \<Rightarrow> buffer \<Rightarrow> buffer \<Rightarrow> nat option \<Rightarrow> buffer \<Rightarrow> buffer \<Rightarrow> error + buffer"
  toBase64 :: "buffer \<Rightarrow> jsstring"
  fromBase64 :: "jsstring \<Rightarrow> buffer"

text \<open>
  What lies outside of the object: the state of the random generator and the calls made
  to \<open>node:crypto\<close>, in their order.
\<close>

datatype call =
    RandomBytes nat
  | Scrypt buffer
  | Cipheriv algorithm
  | Decipheriv algorithm

record 'g world =
  rng :: 'g
  calls :: "call list"

definition crypto_randomBytes :: "'g node \<Rightarrow> nat \<Rightarrow> 'g world \<Rightarrow> buffer \<times> 'g world" where
  "crypto_randomBytes P n w =
     (let (bytes, g) = randomBytes P n (rng w)
      in (bytes, w\<lparr>rng := g, calls := calls w @ [RandomBytes n]\<rparr>))"

definition crypto_scrypt ::
  "'g node \<Rightarrow> buffer \<Rightarrow> buffer \<Rightarrow> nat \<Rightarrow> scrypt_options \<Rightarrow> 'g world
     \<Rightarrow> (error + buffer) \<times> 'g world" where
  "crypto_scrypt P password salt keylen options w =
     (scrypt P password salt keylen options, w\<lparr>calls := calls w @ [Scrypt salt]\<rparr>)"

definition crypto_cipher ::
  "'g node \<Rightarrow> algorithm \<Rightarrow> buffer \<Rightarrow> buffer \<Rightarrow> nat option \<Rightarrow> buffer \<Rightarrow> 'g world
     \<Rightarrow> (error + buffer \<times> buffer) \<times> 'g world" where
  "crypto_cipher P alg key iv tagLength data w =
     (cipher P alg key iv tagLength data, w\<lparr>calls := calls w @ [Cipheriv alg]\<rparr>)"

definition crypto_decipher ::
  "'g node \<Rightarrow> algorithm \<Rightarrow> buffer \<Rightarrow> buffer \<Rightarrow> nat option \<Rightarrow> buffer \<Rightarrow> buffer \<Rightarrow> 'g world
     \<Rightarrow> (error + buffer) \<times> 'g world" where
  "crypto_decipher P alg key iv tagLength tag data w =
     (decipher P alg key iv tagLength tag data, w\<lparr>calls := calls w @ [Decipheriv alg]\<rparr>)"

section \<open>The class DyCrypt\<close>

record scrypt_params =
  param_N :: nat
  param_r :: nat
  param_p :: nat
  keyLength :: nat
  saltLength :: nat

record DyCrypt =
  masterPassword :: buffer
  scryptParams :: scrypt_params

text \<open>The constructor stores the UTF-8 bytes of the password in the object.\<close>

definition DyCrypt_new :: "jsstring \<Rightarrow> DyCrypt" where
  "DyCrypt_new password =
     \<lparr>masterPassword = utf8_encode password,
      scryptParams = \<lparr>param_N = 16384, param_r = 8, param_p = 1,
                      keyLength = 32, saltLength = 16\<rparr>\<rparr>"

definition deriveKey ::
  "'g node \<Rightarrow> DyCrypt \<Rightarrow> buffer \<Rightarrow> 'g world \<Rightarrow> (error + buffer) \<times> 'g world" where
  "deriveKey P this salt w =
     crypto_scrypt P (masterPassword this) salt (keyLength (scryptParams this))
       (ScryptOptions (param_N (scryptParams this)) (param_r (scryptParams this))
          (param_p (scryptParams this))) w"

text \<open>
  The result of \<open>_deriveKey\<close> without the world: the key, or the error of
  \<open>scrypt\<close>, for a salt.
\<close>

definition derived_key :: "'g node \<Rightarrow> DyCrypt \<Rightarrow> buffer \<Rightarrow> error + buffer" where
  "derived_key P this salt =
     scrypt P (masterPassword this) salt (keyLength (scryptParams this))
       (ScryptOptions (param_N (scryptParams this)) (param_r (scryptParams this))
          (param_p (scryptParams this)))"

text \<open>
  A method returns its result, the object after the call and the world after the call.
  An error of a primitive ends the method at once, as the exception does.
\<close>

definition encrypt ::
  "'g node \<Rightarrow> DyCrypt \<Rightarrow> jsstring \<Rightarrow> 'g world \<Rightarrow> (error + EncryptedData) \<times> DyCrypt \<times> 'g world"
  where
  "encrypt P this data w =
     (let (s1, w) = crypto_randomBytes P (saltLength (scryptParams this)) w;
          (k1, w) = deriveKey P this s1 w
      in case k1 of Inl e \<Rightarrow> (Inl e, this, w) | Inr key1 \<Rightarrow>
      let (i1, w) = crypto_randomBytes P 12 w;
          (c1, w) = crypto_cipher P AES_256_GCM key1 i1 None (utf8_encode data) w
      in case c1 of Inl e \<Rightarrow> (Inl e, this, w) | Inr (encrypted1, tag1) \<Rightarrow>
      let (s2, w) = crypto_randomBytes P (saltLength (scryptParams this)) w;
          (k2, w) = deriveKey P this s2 w
      in case k2 of Inl e \<Rightarrow> (Inl e, this, w) | Inr key2 \<Rightarrow>
      let (i2, w) = crypto_randomBytes P 12 w;
          (c2, w) = crypto_cipher P CHACHA20_POLY1305 key2 i2 (Some 16) encrypted1 w
      in case c2 of Inl e \<Rightarrow> (Inl e, this, w) | Inr (encrypted2, tag2) \<Rightarrow>
        (Inr \<lparr>EncryptedData.salt1 = toBase64 P s1,
              EncryptedData.salt2 = toBase64 P s2,
              EncryptedData.iv1 = toBase64 P i1,
              EncryptedData.iv2 = toBase64 P i2,
              EncryptedData.authTag1 = toBase64 P tag1,
              EncryptedData.authTag2 = toBase64 P tag2,
              ciphertext = toBase64 P encrypted2\<rparr>, this, w))"

definition decrypt ::
  "'g node \<Rightarrow> DyCrypt \<Rightarrow> EncryptedData \<Rightarrow> 'g world \<Rightarrow> (error + jsstring) \<times> DyCrypt \<times> 'g world"
  where
  "decrypt P this ed w =
     (let s1 = fromBase64 P (EncryptedData.salt1 ed);
          s2 = fromBase64 P (EncryptedData.salt2 ed);
          i1 = fromBase64 P (EncryptedData.iv1 ed);
          i2 = fromBase64 P (EncryptedData.iv2 ed);
          tag1 = fromBase64 P (EncryptedData.authTag1 ed);
          tag2 = fromBase64 P (EncryptedData.authTag2 ed);
          ct = fromBase64 P (ciphertext ed);
          (k2, w) = deriveKey P this s2 w
      in case k2 of Inl e \<Rightarrow> (Inl e, this, w) | Inr key2 \<Rightarrow>
      let (d2, w) = crypto_decipher P CHACHA20_POLY1305 key2 i2 (Some 16) tag2 ct w
      in case d2 of Inl e \<Rightarrow> (Inl e, this, w) | Inr decrypted2 \<Rightarrow>
      let (k1, w) = deriveKey P this s1 w
      in case k1 of Inl e \<Rightarrow> (Inl e, this, w) | Inr key1 \<Rightarrow>
      let (d1, w) = crypto_decipher P AES_256_GCM key1 i1 None tag1 decrypted2 w
      in case d1 of Inl e \<Rightarrow> (Inl e, this, w) | Inr decrypted1 \<Rightarrow>
        (Inr (utf8_decode decrypted1), this, w))"

text \<open>
  Encrypting and then decrypting what came out, with the same object. An error of
  \<open>encrypt\<close> is the result.
\<close>

definition roundtrip :: "'g node \<Rightarrow> DyCrypt \<Rightarrow> jsstring \<Rightarrow> 'g world \<Rightarrow> error + jsstring" where
  "roundtrip P this data w =
     (case encrypt P this data w of
        (Inl e, this', w') \<Rightarrow> Inl e
      | (Inr ed, this', w') \<Rightarrow> fst (decrypt P this' ed w'))"

text \<open>
  The calls of a complete \<open>decrypt\<close>, in the order of the layers: the key of
  layer 2 and ChaCha20-Poly1305 first, then the key of layer 1 and AES-256-GCM.
\<close>

definition layer_calls :: "'g node \<Rightarrow> EncryptedData \<Rightarrow> call list" where
  "layer_calls P ed =
     [Scrypt (fromBase64 P (EncryptedData.salt2 ed)), Decipheriv CHACHA20_POLY1305,
      Scrypt (fromBase64 P (EncryptedData.salt1 ed)), Decipheriv AES_256_GCM]"

text \<open>
  The callers (the demo and the command line program) decode the seven base64 strings
  and hand them to \<open>packData\<close>.
\<close>

definition pack_encrypted :: "'g node \<Rightarrow> (nat \<Rightarrow> byte) \<Rightarrow> EncryptedData \<Rightarrow> error + buffer" where
  "pack_encrypted P mem ed =
     packData mem (fromBase64 P (EncryptedData.salt1 ed)) (fromBase64 P (EncryptedData.salt2 ed))
       (fromBase64 P (EncryptedData.iv1 ed)) (fromBase64 P (EncryptedData.iv2 ed))
       (fromBase64 P (EncryptedData.authTag1 ed)) (fromBase64 P (EncryptedData.authTag2 ed))
       (fromBase64 P (ciphertext ed))"

section \<open>What the model asks of the primitives\<close>

text \<open>
  Deciphering with the key, IV and tag of the encryption gives the input back
  (the correctness of an AEAD scheme).
\<close>

definition aead_correct :: "'g node \<Rightarrow> bool" where
  "aead_correct P \<longleftrightarrow>
     (\<forall>alg key iv tagLength data ct tag.
        cipher P alg key iv tagLength data = Inr (ct, tag) \<longrightarrow>
        decipher P alg key iv tagLength tag ct = Inr data)"

text \<open>Base64 loses nothing.\<close>

definition base64_lossless :: "'g node \<Rightarrow> bool" where
  "base64_lossless P \<longleftrightarrow> (\<forall>buf. fromBase64 P (toBase64 P buf) = buf)"

text \<open>
  Both ciphers are stream modes: the ciphertext has the length of the input. The tag
  that \<open>getAuthTag\<close> returns has \<open>authTagLength\<close> bytes, 16 when the option is
  not given.
\<close>

definition tag_length :: "nat option \<Rightarrow> nat" where
  "tag_length tagLength = (case tagLength of None \<Rightarrow> 16 | Some n \<Rightarrow> n)"

definition cipher_lengths :: "'g node \<Rightarrow> bool" where
  "cipher_lengths P \<longleftrightarrow>
     (\<forall>alg key iv tagLength data ct tag.
        cipher P alg key iv tagLength data = Inr (ct, tag) \<longrightarrow>
        length ct = length data \<and> length tag = tag_length tagLength)"

definition random_lengths :: "'g node \<Rightarrow> bool" where
  "random_lengths P \<longleftrightarrow> (\<forall>n g. length (fst (randomBytes P n g)) = n)"

section \<open>An instance of the primitives\<close>

text \<open>
  A small instance: the key stream is one byte added to every byte, the tag is a
  checksum of 16 bytes over key, IV and data that depends on the algorithm, the
  generator is a counter and the text encoding keeps each byte as one code unit.
  \<open>sample_this\<close> is the object made from the password "pw".
\<close>

definition first_byte :: "buffer \<Rightarrow> byte" where
  "first_byte buf = (case buf of [] \<Rightarrow> 0 | b # _ \<Rightarrow> b)"

definition sample_tag :: "algorithm \<Rightarrow> buffer \<Rightarrow> buffer \<Rightarrow> buffer \<Rightarrow> buffer" where
  "sample_tag alg key iv data =
     replicate 16 (first_byte key + first_byte iv + sum_list data +
                   (case alg of AES_256_GCM \<Rightarrow> 1 | CHACHA20_POLY1305 \<Rightarrow> 2))"

definition sample_cipher ::
  "algorithm \<Rightarrow> buffer \<Rightarrow> buffer \<Rightarrow> nat option \<Rightarrow> buffer \<Rightarrow> error + buffer \<times> buffer" where
  "sample_cipher alg key iv tagLength data =
     Inr (map (\<lambda>b. b + first_byte key) data, sample_tag alg key iv data)"

definition sample_decipher ::
  "algorithm \<Rightarrow> buffer \<Rightarrow> buffer \<Rightarrow> nat option \<Rightarrow> buffer \<Rightarrow> buffer \<Rightarrow> error + buffer" where
  "sample_decipher alg key iv tagLength tag data =
     (let plain = map (\<lambda>b. b - first_byte key) data
      in if tag = sample_tag alg key iv plain then Inr plain else Inl UnableToAuthenticate)"

definition sample_scrypt :: "buffer \<Rightarrow> buffer \<Rightarrow> nat \<Rightarrow> scrypt_options \<Rightarrow> error + buffer" where
  "sample_scrypt password salt keylen options =
     Inr (replicate keylen (first_byte password + first_byte salt))"

definition sample_randomBytes :: "nat \<Rightarrow> nat \<Rightarrow> buffer \<times> nat" where
  "sample_randomBytes n g = (replicate n (of_nat g), Suc g)"

definition sample_node :: "nat node" where
  "sample_node =
     \<lparr>randomBytes = sample_randomBytes, scrypt = sample_scrypt, cipher = sample_cipher,
      decipher = sample_decipher, toBase64 = map ucast, fromBase64 = map ucast\<rparr>"

text \<open>
  A second instance, which reads \<open>authTagLength\<close> as \<open>node:crypto\<close> does: the
  cipher returns a tag of that length, and the decipher that is given the option refuses
  a tag of another length (\<open>setAuthTag\<close> throws) before anything is verified.
  Without the option the tag is taken as it is and compared in \<open>final\<close>.
\<close>

definition strict_cipher ::
  "algorithm \<Rightarrow> buffer \<Rightarrow> buffer \<Rightarrow> nat option \<Rightarrow> buffer \<Rightarrow> error + buffer \<times> buffer" where
  "strict_cipher alg key iv tagLength data =
     (if 16 < tag_length tagLength then Inl (CryptoError ''Invalid authentication tag length'')
      else Inr (map (\<lambda>b. b + first_byte key) data,
                take (tag_length tagLength) (sample_tag alg key iv data)))"

definition strict_decipher ::
  "algorithm \<Rightarrow> buffer \<Rightarrow> buffer \<Rightarrow> nat option \<Rightarrow> buffer \<Rightarrow> buffer \<Rightarrow> error + buffer" where
  "strict_decipher alg key iv tagLength tag data =
     (if tagLength \<noteq> None \<and> length tag \<noteq> tag_length tagLength
      then Inl (CryptoError ''Invalid authentication tag length'')
      else let plain = map (\<lambda>b. b - first_byte key) data
           in if tag = take (tag_length tagLength) (sample_tag alg key iv plain) then Inr plain
              else Inl UnableToAuthenticate)"

definition strict_node :: "nat node" where
  "strict_node =
     \<lparr>randomBytes = sample_randomBytes, scrypt = sample_scrypt, cipher = strict_cipher,
      decipher = strict_decipher, toBase64 = map ucast, fromBase64 = map ucast\<rparr>"

definition sample_world :: "nat world" where
  "sample_world = \<lparr>rng = 7, calls = []\<rparr>"

definition sample_this :: DyCrypt where
  "sample_this = DyCrypt_new [0x70, 0x77]"

text \<open>
  What \<open>encrypt\<close> returns for the text "hi", with \<open>sample_this\<close> in
  \<open>sample_world\<close>.
\<close>

definition sample_encrypted :: EncryptedData where
  "sample_encrypted =
     \<lparr>EncryptedData.salt1 = replicate 16 7, EncryptedData.salt2 = replicate 16 9,
      EncryptedData.iv1 = replicate 12 8, EncryptedData.iv2 = replicate 12 10,
      EncryptedData.authTag1 = replicate 16 81, EncryptedData.authTag2 = replicate 16 68,
      ciphertext = [88, 89]\<rparr>"

text \<open>
  The scenario: the password "CorrectHorseBatteryStaple" and the text "attack at dawn",
  as code units.
\<close>

definition correct_horse :: jsstring where
  "correct_horse =
     [0x43, 0x6F, 0x72, 0x72, 0x65, 0x63, 0x74, 0x48, 0x6F, 0x72, 0x73, 0x65, 0x42, 0x61,
      0x74, 0x74, 0x65, 0x72, 0x79, 0x53, 0x74, 0x61, 0x70, 0x6C, 0x65]"

definition attack_at_dawn :: jsstring where
  "attack_at_dawn =
     [0x61, 0x74, 0x74, 0x61, 0x63, 0x6B, 0x20, 0x61, 0x74, 0x20, 0x64, 0x61, 0x77, 0x6E]"

section \<open>Properties of the container\<close>

lemma length_allocUnsafe: "length (allocUnsafe mem n) = n"
  by (simp add: allocUnsafe_def)

text \<open>
  A copy that fits behind the part already written replaces what was there: the part
  in front of it stays, and so does what lies behind it.
\<close>

lemma copy_append:
  assumes "length front = k" and "length source \<le> length rest"
  shows "copy source (front @ rest) k = front @ source @ drop (length source) rest"
  using assms by (auto simp: copy_def Let_def min_def)

lemma valid_lengthsD:
  assumes "valid_lengths s1 s2 i1 i2 t1 t2"
  shows "length s1 = 16" "length s2 = 16" "length i1 = 12" "length i2 = 12"
    "length t1 = 16" "length t2 = 16"
  using assms by (simp_all add: valid_lengths_def)

lemma packData_valid:
  assumes "valid_lengths s1 s2 i1 i2 t1 t2"
  shows "packData mem s1 s2 i1 i2 t1 t2 payload = Inr (s1 @ s2 @ i1 @ i2 @ t1 @ t2 @ payload)"
proof -
  define A where "A = allocUnsafe mem (88 + length payload)"
  have lA: "length A = 88 + length payload"
    by (simp add: A_def length_allocUnsafe)
  note l = valid_lengthsD [OF assms]
  have c1: "copy s1 A 0 = s1 @ drop 16 A"
    using copy_append [of "[]" 0 s1 A] l lA by simp
  have c2: "copy s2 (s1 @ drop 16 A) 16 = s1 @ s2 @ drop 32 A"
    using copy_append [of s1 16 s2 "drop 16 A"] l lA by simp
  have c3: "copy i1 (s1 @ s2 @ drop 32 A) 32 = s1 @ s2 @ i1 @ drop 44 A"
    using copy_append [of "s1 @ s2" 32 i1 "drop 32 A"] l lA by simp
  have c4: "copy i2 (s1 @ s2 @ i1 @ drop 44 A) 44 = s1 @ s2 @ i1 @ i2 @ drop 56 A"
    using copy_append [of "s1 @ s2 @ i1" 44 i2 "drop 44 A"] l lA by simp
  have c5: "copy t1 (s1 @ s2 @ i1 @ i2 @ drop 56 A) 56 = s1 @ s2 @ i1 @ i2 @ t1 @ drop 72 A"
    using copy_append [of "s1 @ s2 @ i1 @ i2" 56 t1 "drop 56 A"] l lA by simp
  have c6: "copy t2 (s1 @ s2 @ i1 @ i2 @ t1 @ drop 72 A) 72
              = s1 @ s2 @ i1 @ i2 @ t1 @ t2 @ drop 88 A"
    using copy_append [of "s1 @ s2 @ i1 @ i2 @ t1" 72 t2 "drop 72 A"] l lA by simp
  have c7: "copy payload (s1 @ s2 @ i1 @ i2 @ t1 @ t2 @ drop 88 A) 88
              = s1 @ s2 @ i1 @ i2 @ t1 @ t2 @ payload"
    using copy_append [of "s1 @ s2 @ i1 @ i2 @ t1 @ t2" 88 payload "drop 88 A"] l lA by simp
  show ?thesis
    using l by (simp add: packData_def Let_def A_def [symmetric] c1 c2 c3 c4 c5 c6 c7)
qed

lemma bytes_at_take_drop: "b \<le> length buf \<Longrightarrow> bytes_at buf a b = take (b - a) (drop a buf)"
  by (auto simp: bytes_at_def list_eq_iff_nth_eq)

lemma subarray_bytes_at: "b \<le> length buf \<Longrightarrow> subarray buf a b = bytes_at buf a b"
  by (cases "a \<le> length buf") (simp_all add: bytes_at_take_drop subarray_def Let_def min_def)

lemma bytes_at_append:
  "length front = a \<Longrightarrow> b = a + length x \<Longrightarrow> bytes_at (front @ x @ rest) a b = x"
  by (simp add: bytes_at_take_drop)

lemma unpackData_long:
  assumes "88 \<le> length buf"
  shows "unpackData buf =
           Inr \<lparr>salt1 = bytes_at buf 0 16, salt2 = bytes_at buf 16 32,
                iv1 = bytes_at buf 32 44, iv2 = bytes_at buf 44 56,
                authTag1 = bytes_at buf 56 72, authTag2 = bytes_at buf 72 88,
                encryptedData = bytes_at buf 88 (length buf)\<rparr>"
  using assms
  by (simp add: unpackData_def HEADER_SIZE_def Let_def subarray_from_def subarray_bytes_at)

lemma layout_concat:
  assumes "valid_lengths s1 s2 i1 i2 t1 t2"
    and "packed = s1 @ s2 @ i1 @ i2 @ t1 @ t2 @ payload"
  shows "bytes_at packed 0 16 = s1" "bytes_at packed 16 32 = s2"
    "bytes_at packed 32 44 = i1" "bytes_at packed 44 56 = i2"
    "bytes_at packed 56 72 = t1" "bytes_at packed 72 88 = t2"
    "bytes_at packed 88 (length packed) = payload"
proof -
  note l = valid_lengthsD [OF assms(1)]
  show "bytes_at packed 0 16 = s1"
    using bytes_at_append [of "[]" 0 16 s1 "s2 @ i1 @ i2 @ t1 @ t2 @ payload"] l assms(2) by simp
  show "bytes_at packed 16 32 = s2"
    using bytes_at_append [of s1 16 32 s2 "i1 @ i2 @ t1 @ t2 @ payload"] l assms(2) by simp
  show "bytes_at packed 32 44 = i1"
    using bytes_at_append [of "s1 @ s2" 32 44 i1 "i2 @ t1 @ t2 @ payload"] l assms(2) by simp
  show "bytes_at packed 44 56 = i2"
    using bytes_at_append [of "s1 @ s2 @ i1" 44 56 i2 "t1 @ t2 @ payload"] l assms(2) by simp
  show "bytes_at packed 56 72 = t1"
    using bytes_at_append [of "s1 @ s2 @ i1 @ i2" 56 72 t1 "t2 @ payload"] l assms(2) by simp
  show "bytes_at packed 72 88 = t2"
    using bytes_at_append [of "s1 @ s2 @ i1 @ i2 @ t1" 72 88 t2 payload] l assms(2) by simp
  show "bytes_at packed 88 (length packed) = payload"
    using bytes_at_append [of "s1 @ s2 @ i1 @ i2 @ t1 @ t2" 88 "length packed" payload "[]"]
      l assms(2) by simp
qed

text \<open>
  C4. With fields of the valid lengths, \<open>packData\<close> returns the concatenation
  salt1, salt2, iv1, iv2, tag1, tag2, payload: salt1 lies at the offsets [0,16), salt2 at
  [16,32), iv1 at [32,44), iv2 at [44,56), tag1 at [56,72), tag2 at [72,88) and the payload
  at [88,N). \<open>unpackData\<close> cuts that buffer at the same offsets.
\<close>

theorem packData_layout:
  assumes "valid_lengths s1 s2 i1 i2 t1 t2"
  shows "\<exists>packed. packData mem s1 s2 i1 i2 t1 t2 payload = Inr packed \<and>
           packed = s1 @ s2 @ i1 @ i2 @ t1 @ t2 @ payload \<and>
           bytes_at packed 0 16 = s1 \<and> bytes_at packed 16 32 = s2 \<and>
           bytes_at packed 32 44 = i1 \<and> bytes_at packed 44 56 = i2 \<and>
           bytes_at packed 56 72 = t1 \<and> bytes_at packed 72 88 = t2 \<and>
           bytes_at packed 88 (length packed) = payload \<and>
           unpackData packed =
             Inr \<lparr>salt1 = bytes_at packed 0 16, salt2 = bytes_at packed 16 32,
                  iv1 = bytes_at packed 32 44, iv2 = bytes_at packed 44 56,
                  authTag1 = bytes_at packed 56 72, authTag2 = bytes_at packed 72 88,
                  encryptedData = bytes_at packed 88 (length packed)\<rparr>"
proof -
  define packed where "packed = s1 @ s2 @ i1 @ i2 @ t1 @ t2 @ payload"
  have "88 \<le> length packed"
    using valid_lengthsD [OF assms] by (simp add: packed_def)
  then show ?thesis
    using packData_valid [OF assms, of mem payload] layout_concat [OF assms packed_def]
      unpackData_long [of packed]
    by (simp add: packed_def [symmetric])
qed


theorem packData_layout_witness:
  "valid_lengths (replicate 16 1) (replicate 16 2) (replicate 12 3) (replicate 12 4)
     (replicate 16 5) (replicate 16 6) \<and>
   packData (\<lambda>_. 255) (replicate 16 1) (replicate 16 2) (replicate 12 3) (replicate 12 4)
     (replicate 16 5) (replicate 16 6) [7, 8] =
   Inr (replicate 16 1 @ replicate 16 2 @ replicate 12 3 @ replicate 12 4 @
        replicate 16 5 @ replicate 16 6 @ [7, 8])"
proof -
  have h: "valid_lengths (replicate 16 1) (replicate 16 2) (replicate 12 3) (replicate 12 4)
             (replicate 16 5) (replicate 16 6)"
    by (simp add: valid_lengths_def)
  from packData_layout [OF h, of "\<lambda>_. 255" "[7, 8]"] h show ?thesis
    by blast
qed

text \<open>
  C5. For fields of the valid lengths and any payload, also the empty one,
  \<open>unpackData\<close> of the packed buffer gives each of the seven fields back.
\<close>

theorem unpack_pack:
  assumes "valid_lengths s1 s2 i1 i2 t1 t2"
  shows "\<exists>packed. packData mem s1 s2 i1 i2 t1 t2 payload = Inr packed \<and>
           unpackData packed =
             Inr \<lparr>salt1 = s1, salt2 = s2, iv1 = i1, iv2 = i2,
                  authTag1 = t1, authTag2 = t2, encryptedData = payload\<rparr>"
proof -
  define packed where "packed = s1 @ s2 @ i1 @ i2 @ t1 @ t2 @ payload"
  have "88 \<le> length packed"
    using valid_lengthsD [OF assms] by (simp add: packed_def)
  then have "unpackData packed =
      Inr \<lparr>salt1 = s1, salt2 = s2, iv1 = i1, iv2 = i2,
           authTag1 = t1, authTag2 = t2, encryptedData = payload\<rparr>"
    using unpackData_long [of packed] layout_concat [OF assms packed_def] by simp
  then show ?thesis
    using packData_valid [OF assms, of mem payload] by (simp add: packed_def)
qed

theorem unpack_pack_witness:
  "valid_lengths (replicate 16 1) (replicate 16 2) (replicate 12 3) (replicate 12 4)
     (replicate 16 5) (replicate 16 6) \<and>
   (\<exists>packed.
      packData (\<lambda>_. 255) (replicate 16 1) (replicate 16 2) (replicate 12 3) (replicate 12 4)
        (replicate 16 5) (replicate 16 6) [] = Inr packed \<and>
      unpackData packed =
        Inr \<lparr>salt1 = replicate 16 1, salt2 = replicate 16 2, iv1 = replicate 12 3,
             iv2 = replicate 12 4, authTag1 = replicate 16 5, authTag2 = replicate 16 6,
             encryptedData = []\<rparr>)"
proof -
  have h: "valid_lengths (replicate 16 1) (replicate 16 2) (replicate 12 3) (replicate 12 4)
             (replicate 16 5) (replicate 16 6)"
    by (simp add: valid_lengths_def)
  from unpack_pack [OF h, of "\<lambda>_. 255" "[]"] h show ?thesis
    by blast
qed

text \<open>
  C6. When a fixed field has the wrong length, \<open>packData\<close> fails with an error that
  names a field of the wrong length and the length it has, and there is no buffer; with
  all six lengths right it does not fail.
\<close>

theorem packData_validation:
  "(\<not> valid_lengths s1 s2 i1 i2 t1 t2 \<longrightarrow>
      (\<exists>f. packData mem s1 s2 i1 i2 t1 t2 payload =
              Inl (LengthError f (field_length f) (length (field_arg f s1 s2 i1 i2 t1 t2))) \<and>
            length (field_arg f s1 s2 i1 i2 t1 t2) \<noteq> field_length f)) \<and>
   (valid_lengths s1 s2 i1 i2 t1 t2 \<longrightarrow>
      (\<exists>packed. packData mem s1 s2 i1 i2 t1 t2 payload = Inr packed))"
proof (intro conjI impI)
  assume bad: "\<not> valid_lengths s1 s2 i1 i2 t1 t2"
  let ?P = "\<lambda>f. packData mem s1 s2 i1 i2 t1 t2 payload =
              Inl (LengthError f (field_length f) (length (field_arg f s1 s2 i1 i2 t1 t2))) \<and>
            length (field_arg f s1 s2 i1 i2 t1 t2) \<noteq> field_length f"
  consider (a) "length s1 \<noteq> 16"
    | (b) "length s1 = 16" "length s2 \<noteq> 16"
    | (c) "length s1 = 16" "length s2 = 16" "length i1 \<noteq> 12"
    | (d) "length s1 = 16" "length s2 = 16" "length i1 = 12" "length i2 \<noteq> 12"
    | (e) "length s1 = 16" "length s2 = 16" "length i1 = 12" "length i2 = 12"
          "length t1 \<noteq> 16"
    | (f) "length s1 = 16" "length s2 = 16" "length i1 = 12" "length i2 = 12"
          "length t1 = 16" "length t2 \<noteq> 16"
    using bad unfolding valid_lengths_def by blast
  then show "\<exists>f. ?P f"
  proof cases
    case a then have "?P Salt1" by (simp add: packData_def) then show ?thesis ..
  next
    case b then have "?P Salt2" by (simp add: packData_def) then show ?thesis ..
  next
    case c then have "?P IV1" by (simp add: packData_def) then show ?thesis ..
  next
    case d then have "?P IV2" by (simp add: packData_def) then show ?thesis ..
  next
    case e then have "?P AuthTag1" by (simp add: packData_def) then show ?thesis ..
  next
    case f then have "?P AuthTag2" by (simp add: packData_def) then show ?thesis ..
  qed
next
  assume "valid_lengths s1 s2 i1 i2 t1 t2"
  then show "\<exists>packed. packData mem s1 s2 i1 i2 t1 t2 payload = Inr packed"
    by (simp add: packData_valid)
qed

theorem packData_validation_witness:
  "\<not> valid_lengths (replicate 15 1) (replicate 16 2) (replicate 12 3) (replicate 12 4)
       (replicate 16 5) (replicate 16 6) \<and>
   packData (\<lambda>_. 255) (replicate 15 1) (replicate 16 2) (replicate 12 3) (replicate 12 4)
     (replicate 16 5) (replicate 16 6) [7, 8] = Inl (LengthError Salt1 16 15) \<and>
   valid_lengths (replicate 16 1) (replicate 16 2) (replicate 12 3) (replicate 12 4)
     (replicate 16 5) (replicate 16 6) \<and>
   (\<exists>packed.
      packData (\<lambda>_. 255) (replicate 16 1) (replicate 16 2) (replicate 12 3) (replicate 12 4)
        (replicate 16 5) (replicate 16 6) [7, 8] = Inr packed)"
proof -
  have bad: "\<not> valid_lengths (replicate 15 1) (replicate 16 2) (replicate 12 3)
               (replicate 12 4) (replicate 16 5) (replicate 16 6)"
    by (simp add: valid_lengths_def)
  have good: "valid_lengths (replicate 16 1) (replicate 16 2) (replicate 12 3)
                (replicate 12 4) (replicate 16 5) (replicate 16 6)"
    by (simp add: valid_lengths_def)
  from packData_validation [of "replicate 15 1" "replicate 16 2" "replicate 12 3"
      "replicate 12 4" "replicate 16 5" "replicate 16 6" "\<lambda>_. 255" "[7, 8]"] bad
  obtain f where f: "packData (\<lambda>_. 255) (replicate 15 1) (replicate 16 2) (replicate 12 3)
        (replicate 12 4) (replicate 16 5) (replicate 16 6) [7, 8] =
      Inl (LengthError f (field_length f)
             (length (field_arg f (replicate 15 1) (replicate 16 2) (replicate 12 3)
                (replicate 12 4) (replicate 16 5) (replicate 16 6))))"
    and ne: "length (field_arg f (replicate 15 1) (replicate 16 2) (replicate 12 3)
                (replicate 12 4) (replicate 16 5) (replicate 16 6)) \<noteq> field_length f"
    by blast
  from ne have "f = Salt1"
    by (cases f) simp_all
  with f have "packData (\<lambda>_. 255) (replicate 15 1) (replicate 16 2) (replicate 12 3)
        (replicate 12 4) (replicate 16 5) (replicate 16 6) [7, 8] = Inl (LengthError Salt1 16 15)"
    by simp
  moreover from packData_validation [of "replicate 16 1" "replicate 16 2" "replicate 12 3"
      "replicate 12 4" "replicate 16 5" "replicate 16 6" "\<lambda>_. 255" "[7, 8]"] good
  have "\<exists>packed.
      packData (\<lambda>_. 255) (replicate 16 1) (replicate 16 2) (replicate 12 3) (replicate 12 4)
        (replicate 16 5) (replicate 16 6) [7, 8] = Inr packed"
    by blast
  ultimately show ?thesis
    using bad good by blast
qed

text \<open>
  C7. \<open>unpackData\<close> fails exactly on the inputs shorter than 88 bytes. Every longer
  input is cut into the six fields of the header, in their order, and the rest, which may
  be empty, is the payload; nothing else is checked.
\<close>

theorem unpackData_total:
  "((\<exists>e. unpackData buf = Inl e) \<longleftrightarrow> length buf < 88) \<and>
   (length buf < 88 \<longrightarrow> unpackData buf = Inl (CorruptedFile 88 (length buf))) \<and>
   (88 \<le> length buf \<longrightarrow>
      (\<exists>u. unpackData buf = Inr u \<and>
           salt1 u = take 16 buf \<and> salt2 u = take 16 (drop 16 buf) \<and>
           iv1 u = take 12 (drop 32 buf) \<and> iv2 u = take 12 (drop 44 buf) \<and>
           authTag1 u = take 16 (drop 56 buf) \<and> authTag2 u = take 16 (drop 72 buf) \<and>
           encryptedData u = drop 88 buf \<and>
           salt1 u @ salt2 u @ iv1 u @ iv2 u @ authTag1 u @ authTag2 u = take 88 buf))"
proof (intro conjI impI)
  show "(\<exists>e. unpackData buf = Inl e) \<longleftrightarrow> length buf < 88"
    by (simp add: unpackData_def HEADER_SIZE_def Let_def)
  show "unpackData buf = Inl (CorruptedFile 88 (length buf))" if "length buf < 88"
    using that by (simp add: unpackData_def HEADER_SIZE_def)
  show "\<exists>u. unpackData buf = Inr u \<and>
           salt1 u = take 16 buf \<and> salt2 u = take 16 (drop 16 buf) \<and>
           iv1 u = take 12 (drop 32 buf) \<and> iv2 u = take 12 (drop 44 buf) \<and>
           authTag1 u = take 16 (drop 56 buf) \<and> authTag2 u = take 16 (drop 72 buf) \<and>
           encryptedData u = drop 88 buf \<and>
           salt1 u @ salt2 u @ iv1 u @ iv2 u @ authTag1 u @ authTag2 u = take 88 buf"
    if long: "88 \<le> length buf"
  proof -
    have split: "take 16 buf @ take 16 (drop 16 buf) @ take 12 (drop 32 buf) @
        take 12 (drop 44 buf) @ take 16 (drop 56 buf) @ take 16 (drop 72 buf) = take 88 buf"
      by (simp add: take_add [symmetric] flip: drop_take append_assoc)
    show ?thesis
      using long split
      by (simp add: unpackData_long bytes_at_take_drop)
  qed
qed

theorem unpackData_total_witness:
  "length (replicate 50 (0 :: byte)) < 88 \<and>
   unpackData (replicate 50 0) = Inl (CorruptedFile 88 50) \<and>
   88 \<le> length (replicate 88 (1 :: byte)) \<and>
   (\<exists>u. unpackData (replicate 88 1) = Inr u \<and> encryptedData u = [])"
proof -
  have short: "length (replicate 50 (0 :: byte)) < 88" and long: "88 \<le> length (replicate 88 (1 :: byte))"
    by simp_all
  from unpackData_total [of "replicate 50 0"] short
  have "unpackData (replicate 50 0) = Inl (CorruptedFile 88 50)"
    by simp
  moreover from unpackData_total [of "replicate 88 1"] long
  have "\<exists>u. unpackData (replicate 88 1) = Inr u \<and> encryptedData u = []"
    by auto
  ultimately show ?thesis
    using short long by blast
qed

text \<open>
  C10. With fields of the valid lengths, every byte of the buffer that \<open>packData\<close>
  returns has been written: the bytes [0,88) are the six fields in their order and the
  bytes from 88 on are the payload. What was in the memory before does not show in the
  result.
\<close>

theorem packData_initialised:
  assumes "valid_lengths s1 s2 i1 i2 t1 t2"
  shows "packData mem s1 s2 i1 i2 t1 t2 payload = packData mem' s1 s2 i1 i2 t1 t2 payload \<and>
    (\<exists>packed. packData mem s1 s2 i1 i2 t1 t2 payload = Inr packed \<and>
       length packed = 88 + length payload \<and>
       (\<forall>i < length packed.
          packed ! i =
            (if i < 16 then s1 ! i
             else if i < 32 then s2 ! (i - 16)
             else if i < 44 then i1 ! (i - 32)
             else if i < 56 then i2 ! (i - 44)
             else if i < 72 then t1 ! (i - 56)
             else if i < 88 then t2 ! (i - 72)
             else payload ! (i - 88))))"
proof -
  note l = valid_lengthsD [OF assms]
  define packed where "packed = s1 @ s2 @ i1 @ i2 @ t1 @ t2 @ payload"
  have len: "length packed = 88 + length payload"
    using l by (simp add: packed_def)
  have nth: "packed ! i =
            (if i < 16 then s1 ! i
             else if i < 32 then s2 ! (i - 16)
             else if i < 44 then i1 ! (i - 32)
             else if i < 56 then i2 ! (i - 44)
             else if i < 72 then t1 ! (i - 56)
             else if i < 88 then t2 ! (i - 72)
             else payload ! (i - 88))" for i
  proof -
    have "(s1 @ r) ! i = (if i < 16 then s1 ! i else r ! (i - 16))" for r
      using l by (simp add: nth_append)
    moreover have "(s2 @ r) ! (i - 16) = (if i < 32 then s2 ! (i - 16) else r ! (i - 32))"
      if "\<not> i < 16" for r
      using l that by (auto simp: nth_append)
    moreover have "(i1 @ r) ! (i - 32) = (if i < 44 then i1 ! (i - 32) else r ! (i - 44))"
      if "\<not> i < 32" for r
      using l that by (auto simp: nth_append)
    moreover have "(i2 @ r) ! (i - 44) = (if i < 56 then i2 ! (i - 44) else r ! (i - 56))"
      if "\<not> i < 44" for r
      using l that by (auto simp: nth_append)
    moreover have "(t1 @ r) ! (i - 56) = (if i < 72 then t1 ! (i - 56) else r ! (i - 72))"
      if "\<not> i < 56" for r
      using l that by (auto simp: nth_append)
    moreover have "(t2 @ r) ! (i - 72) = (if i < 88 then t2 ! (i - 72) else r ! (i - 88))"
      if "\<not> i < 72" for r
      using l that by (auto simp: nth_append)
    ultimately show ?thesis
      by (simp add: packed_def)
  qed
  show ?thesis
    using len nth by (simp add: packData_valid [OF assms] packed_def [symmetric])
qed

theorem packData_initialised_witness:
  "valid_lengths (replicate 16 1) (replicate 16 2) (replicate 12 3) (replicate 12 4)
     (replicate 16 5) (replicate 16 6) \<and>
   packData (\<lambda>_. 0) (replicate 16 1) (replicate 16 2) (replicate 12 3) (replicate 12 4)
     (replicate 16 5) (replicate 16 6) [7, 8] =
   packData (\<lambda>_. 255) (replicate 16 1) (replicate 16 2) (replicate 12 3) (replicate 12 4)
     (replicate 16 5) (replicate 16 6) [7, 8]"
proof -
  have h: "valid_lengths (replicate 16 1) (replicate 16 2) (replicate 12 3) (replicate 12 4)
             (replicate 16 5) (replicate 16 6)"
    by (simp add: valid_lengths_def)
  from packData_initialised [OF h, of "\<lambda>_. 0" "[7, 8]" "\<lambda>_. 255"] h show ?thesis
    by blast
qed

section \<open>UTF-8 round trip\<close>

lemma unat_byte: "n < 256 \<Longrightarrow> unat (of_nat n :: byte) = n"
  by (simp add: unat_of_nat)

lemma mod_add_multiple: "r < m \<Longrightarrow> (k * m + r) mod m = (r::nat)"
  by simp

lemma continuation_mod: "d < 64 \<Longrightarrow> (0x80 + d) mod 64 = (d::nat)"
  using mod_add_multiple [of d 64 2] by simp

lemma div_4096: "(c::nat) div 4096 = c div 64 div 64"
  by (simp add: div_mult2_eq [symmetric])

lemma div_262144: "(c::nat) div 262144 = c div 64 div 64 div 64"
  by (simp add: div_mult2_eq [symmetric])

lemma decoder_one_byte:
  assumes "c < 0x80"
  shows "utf8_decoder 0 0 0x80 0xBF (map unat (utf8_bytes c) @ rest) =
           c # utf8_decoder 0 0 0x80 0xBF rest"
  using assms by (simp add: utf8_bytes_def unat_byte)

lemma decoder_two_bytes:
  assumes "0x80 \<le> c" and "c < 0x800"
  shows "utf8_decoder 0 0 0x80 0xBF (map unat (utf8_bytes c) @ rest) =
           c # utf8_decoder 0 0 0x80 0xBF rest"
proof -
  define q1 where "q1 = c div 64"
  define d0 where "d0 = c mod 64"
  define b0 where "b0 = 0xC0 + q1"
  define b1 where "b1 = 0x80 + d0"
  have c: "c = q1 * 64 + d0"
    by (simp add: q1_def d0_def)
  have d: "d0 < 64"
    by (simp add: d0_def)
  have q: "2 \<le> q1" "q1 < 32"
    using assms c d by linarith+
  have r0: "0xC2 \<le> b0" "b0 \<le> 0xDF" "\<not> b0 \<le> 0x7F" "b0 < 256"
    using q by (simp_all add: b0_def)
  have m0: "b0 mod 32 = q1"
    using mod_add_multiple [of q1 32 6] q by (simp add: b0_def)
  have r1: "0x80 \<le> b1" "b1 \<le> 0xBF" "b1 < 256"
    using d by (simp_all add: b1_def)
  have m1: "b1 mod 64 = d0"
    using d by (simp add: b1_def continuation_mod)
  have "utf8_bytes c = [of_nat b0, of_nat b1]"
    using assms by (simp add: utf8_bytes_def b0_def b1_def q1_def d0_def)
  then show ?thesis
    using r0 r1 by (simp add: unat_byte m0 m1 c)
qed

lemma decoder_three_bytes:
  assumes "0x800 \<le> c" and "c < 0x10000" and "\<not> (0xD800 \<le> c \<and> c \<le> 0xDFFF)"
  shows "utf8_decoder 0 0 0x80 0xBF (map unat (utf8_bytes c) @ rest) =
           c # utf8_decoder 0 0 0x80 0xBF rest"
proof -
  define q2 where "q2 = c div 64 div 64"
  define d1 where "d1 = c div 64 mod 64"
  define d0 where "d0 = c mod 64"
  define b0 where "b0 = 0xE0 + q2"
  define b1 where "b1 = 0x80 + d1"
  define b2 where "b2 = 0x80 + d0"
  have c: "c = (q2 * 64 + d1) * 64 + d0"
    by (simp add: q2_def d1_def d0_def)
  have d: "d0 < 64" "d1 < 64"
    by (simp_all add: d0_def d1_def)
  have cf: "c = q2 * 4096 + d1 * 64 + d0"
    using c by (simp add: add_mult_distrib)
  have q: "q2 < 16"
    using assms cf d by linarith
  have low: "q2 = 0 \<Longrightarrow> 32 \<le> d1"
    using assms cf d by linarith
  have high: "q2 = 13 \<Longrightarrow> d1 < 32"
    using assms cf d by linarith
  have r0: "0xE0 \<le> b0" "b0 \<le> 0xEF" "\<not> b0 \<le> 0x7F" "\<not> (0xC2 \<le> b0 \<and> b0 \<le> 0xDF)" "b0 < 256"
    using q by (simp_all add: b0_def)
  have m0: "b0 mod 16 = q2"
    using mod_add_multiple [of q2 16 14] q by (simp add: b0_def)
  have r1: "(if b0 = 0xE0 then 0xA0 else 0x80) \<le> b1" "b1 \<le> (if b0 = 0xED then 0x9F else 0xBF)"
    "b1 < 256"
    using d low high by (auto simp: b0_def b1_def)
  have m1: "b1 mod 64 = d1"
    using d by (simp add: b1_def continuation_mod)
  have r2: "0x80 \<le> b2" "b2 \<le> 0xBF" "b2 < 256"
    using d by (simp_all add: b2_def)
  have m2: "b2 mod 64 = d0"
    using d by (simp add: b2_def continuation_mod)
  have "utf8_bytes c = [of_nat b0, of_nat b1, of_nat b2]"
    using assms by (simp add: utf8_bytes_def b0_def b1_def b2_def q2_def d1_def d0_def div_4096)
  then show ?thesis
    using r0 r1 r2 by (simp add: unat_byte m0 m1 m2 c)
qed

lemma decoder_four_bytes:
  assumes "0x10000 \<le> c" and "c < 0x110000"
  shows "utf8_decoder 0 0 0x80 0xBF (map unat (utf8_bytes c) @ rest) =
           c # utf8_decoder 0 0 0x80 0xBF rest"
proof -
  define q3 where "q3 = c div 64 div 64 div 64"
  define d2 where "d2 = c div 64 div 64 mod 64"
  define d1 where "d1 = c div 64 mod 64"
  define d0 where "d0 = c mod 64"
  define b0 where "b0 = 0xF0 + q3"
  define b1 where "b1 = 0x80 + d2"
  define b2 where "b2 = 0x80 + d1"
  define b3 where "b3 = 0x80 + d0"
  have c: "c = ((q3 * 64 + d2) * 64 + d1) * 64 + d0"
    by (simp add: q3_def d2_def d1_def d0_def)
  have d: "d0 < 64" "d1 < 64" "d2 < 64"
    by (simp_all add: d0_def d1_def d2_def)
  have cf: "c = q3 * 262144 + d2 * 4096 + d1 * 64 + d0"
    using c by (simp add: add_mult_distrib)
  have q: "q3 < 5"
    using assms cf d by linarith
  have low: "q3 = 0 \<Longrightarrow> 16 \<le> d2"
    using assms cf d by linarith
  have high: "q3 = 4 \<Longrightarrow> d2 < 16"
    using assms cf d by linarith
  have r0: "0xF0 \<le> b0" "b0 \<le> 0xF4" "\<not> b0 \<le> 0x7F" "\<not> (0xC2 \<le> b0 \<and> b0 \<le> 0xDF)"
    "\<not> (0xE0 \<le> b0 \<and> b0 \<le> 0xEF)" "b0 < 256"
    using q by (simp_all add: b0_def)
  have m0: "b0 mod 8 = q3"
    using mod_add_multiple [of q3 8 30] q by (simp add: b0_def)
  have r1: "(if b0 = 0xF0 then 0x90 else 0x80) \<le> b1" "b1 \<le> (if b0 = 0xF4 then 0x8F else 0xBF)"
    "b1 < 256"
    using d low high by (auto simp: b0_def b1_def)
  have m1: "b1 mod 64 = d2"
    using d by (simp add: b1_def continuation_mod)
  have r2: "0x80 \<le> b2" "b2 \<le> 0xBF" "b2 < 256"
    using d by (simp_all add: b2_def)
  have m2: "b2 mod 64 = d1"
    using d by (simp add: b2_def continuation_mod)
  have r3: "0x80 \<le> b3" "b3 \<le> 0xBF" "b3 < 256"
    using d by (simp_all add: b3_def)
  have m3: "b3 mod 64 = d0"
    using d by (simp add: b3_def continuation_mod)
  have "utf8_bytes c = [of_nat b0, of_nat b1, of_nat b2, of_nat b3]"
    using assms
    by (simp add: utf8_bytes_def b0_def b1_def b2_def b3_def q3_def d2_def d1_def d0_def
        div_4096 div_262144)
  then show ?thesis
    using r0 r1 r2 r3 by (simp add: unat_byte m0 m1 m2 m3 c)
qed

lemma decoder_code_point:
  assumes "scalar_value c"
  shows "utf8_decoder 0 0 0x80 0xBF (map unat (utf8_bytes c) @ rest) =
           c # utf8_decoder 0 0 0x80 0xBF rest"
proof -
  consider "c < 0x80" | "0x80 \<le> c" "c < 0x800" | "0x800 \<le> c" "c < 0x10000"
    | "0x10000 \<le> c" "c < 0x110000"
    using assms unfolding scalar_value_def by linarith
  then show ?thesis
    using assms
    by cases (simp_all add: decoder_one_byte decoder_two_bytes decoder_three_bytes
        decoder_four_bytes scalar_value_def)
qed


lemma decoder_code_points:
  assumes "\<forall>c \<in> set cs. scalar_value c"
  shows "utf8_decoder 0 0 0x80 0xBF (map unat (concat (map utf8_bytes cs))) = cs"
  using assms
proof (induction cs)
  case Nil
  then show ?case by simp
next
  case (Cons c cs)
  then show ?case
    using decoder_code_point [of c "map unat (concat (map utf8_bytes cs))"] by simp
qed

lemma unit_scalar:
  assumes "\<not> is_surrogate u"
  shows "scalar_value (unit_code_point u)" and "code_units (unit_code_point u) = [u]"
proof -
  have lt: "unat u < 0x10000"
    using unsigned_less [of u, where ?'a = nat] by simp
  show "scalar_value (unit_code_point u)"
    using assms lt by (simp add: unit_code_point_def scalar_value_def is_surrogate_def)
  show "code_units (unit_code_point u) = [u]"
    using assms lt by (simp add: unit_code_point_def code_units_def)
qed

lemma pair_scalar:
  assumes "is_lead u" and "is_trail v"
  shows "scalar_value (pair_code_point u v)" and "code_units (pair_code_point u v) = [u, v]"
proof -
  define a where "a = unat u - 0xD800"
  define b where "b = unat v - 0xDC00"
  have u: "unat u = 0xD800 + a" and a: "a < 0x400"
    using assms(1) by (auto simp: is_lead_def a_def)
  have v: "unat v = 0xDC00 + b" and b: "b < 0x400"
    using assms(2) by (auto simp: is_trail_def b_def)
  have c: "pair_code_point u v = 0x10000 + (a * 0x400 + b)"
    by (simp add: pair_code_point_def a_def b_def)
  show "scalar_value (pair_code_point u v)"
    using a b by (simp add: c scalar_value_def)
  have "(a * 0x400 + b) div 0x400 = a" "(a * 0x400 + b) mod 0x400 = b"
    using b by simp_all
  then have "code_units (pair_code_point u v) = [of_nat (unat u), of_nat (unat v)]"
    by (simp add: c code_units_def u v)
  then show "code_units (pair_code_point u v) = [u, v]"
    by simp
qed

lemma lead_surrogate: "is_lead u \<Longrightarrow> is_surrogate u"
  by (simp add: is_lead_def is_surrogate_def)

lemma code_points_well_formed:
  assumes "well_formed s"
  shows "(\<forall>c \<in> set (code_points s). scalar_value c) \<and>
         concat (map code_units (code_points s)) = s"
  using assms
proof (induction s rule: code_points.induct)
  case 1
  then show ?case by simp
next
  case (2 u)
  then show ?case by (simp add: unit_scalar)
next
  case (3 u v s)
  show ?case
  proof (cases "is_lead u")
    case True
    with 3 show ?thesis by (simp add: pair_scalar)
  next
    case False
    with 3 show ?thesis by (simp add: unit_scalar)
  qed
qed

text \<open>A well-formed string survives being written as UTF-8 and read back.\<close>

lemma utf8_roundtrip:
  assumes "well_formed s"
  shows "utf8_decode (utf8_encode s) = s"
  using code_points_well_formed [OF assms]
  by (simp add: utf8_decode_def utf8_encode_def decoder_code_points)

text \<open>A surrogate without its partner does not.\<close>

lemma utf8_lone_surrogate: "utf8_decode (utf8_encode [0xD800]) = [0xFFFD]"
  by (simp add: utf8_decode_def utf8_encode_def unit_code_point_def is_surrogate_def
      utf8_bytes_def code_units_def)

lemma unit_code_point_scalar: "scalar_value (unit_code_point u)"
proof (cases "is_surrogate u")
  case True
  then show ?thesis by (simp add: unit_code_point_def scalar_value_def)
next
  case False
  then show ?thesis by (rule unit_scalar)
qed

lemma code_points_scalar: "\<forall>c \<in> set (code_points s). scalar_value c"
  by (induction s rule: code_points.induct) (simp_all add: unit_code_point_scalar pair_scalar)

lemma utf8_decode_encode: "utf8_decode (utf8_encode s) = concat (map code_units (code_points s))"
  by (simp add: utf8_decode_def utf8_encode_def decoder_code_points code_points_scalar)

lemma well_formed_unit: "\<not> is_surrogate u \<Longrightarrow> well_formed (u # s) = well_formed s"
  by (cases s) (auto simp: lead_surrogate)

lemma well_formed_code_units_unit: "well_formed (code_units (unit_code_point u) @ s) = well_formed s"
proof (cases "is_surrogate u")
  case True
  have "\<not> is_surrogate 0xFFFD"
    by (simp add: is_surrogate_def)
  with True show ?thesis
    by (simp add: unit_code_point_def code_units_def well_formed_unit)
next
  case False
  then show ?thesis by (simp add: unit_scalar well_formed_unit)
qed

lemma well_formed_decoded: "well_formed (concat (map code_units (code_points s)))"
proof (induction s rule: code_points.induct)
  case 1
  then show ?case by simp
next
  case (2 u)
  show ?case
    using well_formed_code_units_unit [of u "[]"] by simp
next
  case (3 u v s)
  show ?case
  proof (cases "is_lead u \<and> is_trail v")
    case True
    with 3 show ?thesis by (simp add: pair_scalar)
  next
    case False
    with 3 show ?thesis
      using well_formed_code_units_unit [of u "concat (map code_units (code_points (v # s)))"]
      by auto
  qed
qed

text \<open>The well-formed strings are exactly those that survive.\<close>

lemma utf8_roundtrip_iff: "utf8_decode (utf8_encode s) = s \<longleftrightarrow> well_formed s"
  using utf8_roundtrip [of s] well_formed_decoded [of s] by (auto simp: utf8_decode_encode)

section \<open>Properties of encrypt and decrypt\<close>

lemma deriveKey_pair:
  "deriveKey P this salt w = (derived_key P this salt, w\<lparr>calls := calls w @ [Scrypt salt]\<rparr>)"
  by (simp add: deriveKey_def derived_key_def crypto_scrypt_def)

text \<open>
  The four outcomes of \<open>decrypt\<close>, by the step that ends it.
\<close>

lemma decrypt_key2_fails:
  assumes "derived_key P this (fromBase64 P (EncryptedData.salt2 ed)) = Inl e"
  shows "decrypt P this ed w =
           (Inl e, this, w\<lparr>calls := calls w @ [Scrypt (fromBase64 P (EncryptedData.salt2 ed))]\<rparr>)"
  using assms by (simp add: deriveKey_pair decrypt_def Let_def)

lemma decrypt_layer2_fails:
  assumes "derived_key P this (fromBase64 P (EncryptedData.salt2 ed)) = Inr key2"
    and "decipher P CHACHA20_POLY1305 key2 (fromBase64 P (EncryptedData.iv2 ed)) (Some 16)
           (fromBase64 P (EncryptedData.authTag2 ed)) (fromBase64 P (ciphertext ed)) = Inl e"
  shows "decrypt P this ed w =
           (Inl e, this,
            w\<lparr>calls := calls w @ [Scrypt (fromBase64 P (EncryptedData.salt2 ed)),
                                   Decipheriv CHACHA20_POLY1305]\<rparr>)"
  using assms by (simp add: deriveKey_pair decrypt_def Let_def crypto_decipher_def)

lemma decrypt_key1_fails:
  assumes "derived_key P this (fromBase64 P (EncryptedData.salt2 ed)) = Inr key2"
    and "decipher P CHACHA20_POLY1305 key2 (fromBase64 P (EncryptedData.iv2 ed)) (Some 16)
           (fromBase64 P (EncryptedData.authTag2 ed)) (fromBase64 P (ciphertext ed)) = Inr decrypted2"
    and "derived_key P this (fromBase64 P (EncryptedData.salt1 ed)) = Inl e"
  shows "decrypt P this ed w =
           (Inl e, this,
            w\<lparr>calls := calls w @ [Scrypt (fromBase64 P (EncryptedData.salt2 ed)),
                                   Decipheriv CHACHA20_POLY1305,
                                   Scrypt (fromBase64 P (EncryptedData.salt1 ed))]\<rparr>)"
  using assms by (simp add: deriveKey_pair decrypt_def Let_def crypto_decipher_def)

lemma decrypt_layer1:
  assumes "derived_key P this (fromBase64 P (EncryptedData.salt2 ed)) = Inr key2"
    and "decipher P CHACHA20_POLY1305 key2 (fromBase64 P (EncryptedData.iv2 ed)) (Some 16)
           (fromBase64 P (EncryptedData.authTag2 ed)) (fromBase64 P (ciphertext ed)) = Inr decrypted2"
    and "derived_key P this (fromBase64 P (EncryptedData.salt1 ed)) = Inr key1"
  shows "decrypt P this ed w =
           (map_sum id utf8_decode
              (decipher P AES_256_GCM key1 (fromBase64 P (EncryptedData.iv1 ed)) None
                 (fromBase64 P (EncryptedData.authTag1 ed)) decrypted2),
            this,
            w\<lparr>calls := calls w @ [Scrypt (fromBase64 P (EncryptedData.salt2 ed)),
                                   Decipheriv CHACHA20_POLY1305,
                                   Scrypt (fromBase64 P (EncryptedData.salt1 ed)),
                                   Decipheriv AES_256_GCM]\<rparr>)"
  using assms by (simp add: deriveKey_pair decrypt_def Let_def crypto_decipher_def split: sum.splits)


lemma encrypt_this: "fst (snd (encrypt P this data w)) = this"
  by (simp add: encrypt_def Let_def split: prod.splits sum.splits)

lemma decrypt_this: "fst (snd (decrypt P this ed w)) = this"
  by (simp add: decrypt_def Let_def split: prod.splits sum.splits)

lemma encrypt_success:
  assumes "encrypt P this data w = (Inr ed, this', w')"
  obtains s1 key1 i1 encrypted1 tag1 s2 key2 i2 encrypted2 tag2 g1 g2 g3 g4 where
    "s1 = fst (randomBytes P (saltLength (scryptParams this)) g1)"
    "derived_key P this s1 = Inr key1"
    "i1 = fst (randomBytes P 12 g2)"
    "cipher P AES_256_GCM key1 i1 None (utf8_encode data) = Inr (encrypted1, tag1)"
    "s2 = fst (randomBytes P (saltLength (scryptParams this)) g3)"
    "derived_key P this s2 = Inr key2"
    "i2 = fst (randomBytes P 12 g4)"
    "cipher P CHACHA20_POLY1305 key2 i2 (Some 16) encrypted1 = Inr (encrypted2, tag2)"
    "ed = \<lparr>EncryptedData.salt1 = toBase64 P s1, EncryptedData.salt2 = toBase64 P s2,
           EncryptedData.iv1 = toBase64 P i1, EncryptedData.iv2 = toBase64 P i2,
           EncryptedData.authTag1 = toBase64 P tag1, EncryptedData.authTag2 = toBase64 P tag2,
           ciphertext = toBase64 P encrypted2\<rparr>"
  using assms
  by (simp add: encrypt_def Let_def crypto_randomBytes_def crypto_cipher_def deriveKey_pair
      split: prod.splits sum.splits) (metis fst_conv)


text \<open>
  Decrypting what \<open>encrypt\<close> returned, with the same object, gives the decoded
  UTF-8 bytes of the text.
\<close>

lemma decrypt_encrypt:
  assumes aead: "aead_correct P" and b64: "base64_lossless P"
    and enc: "encrypt P this data w = (Inr ed, this', w')"
  shows "fst (decrypt P this ed w2) = Inr (utf8_decode (utf8_encode data))"
proof -
  from enc obtain s1 key1 i1 encrypted1 tag1 s2 key2 i2 encrypted2 tag2 where
    k1: "derived_key P this s1 = Inr key1"
    and c1: "cipher P AES_256_GCM key1 i1 None (utf8_encode data) = Inr (encrypted1, tag1)"
    and k2: "derived_key P this s2 = Inr key2"
    and c2: "cipher P CHACHA20_POLY1305 key2 i2 (Some 16) encrypted1 = Inr (encrypted2, tag2)"
    and ed: "ed = \<lparr>EncryptedData.salt1 = toBase64 P s1, EncryptedData.salt2 = toBase64 P s2,
           EncryptedData.iv1 = toBase64 P i1, EncryptedData.iv2 = toBase64 P i2,
           EncryptedData.authTag1 = toBase64 P tag1, EncryptedData.authTag2 = toBase64 P tag2,
           ciphertext = toBase64 P encrypted2\<rparr>"
    by (rule encrypt_success)
  have b64id: "fromBase64 P (toBase64 P buf) = buf" for buf
    using b64 by (simp add: base64_lossless_def)
  have d2: "decipher P CHACHA20_POLY1305 key2 i2 (Some 16) tag2 encrypted2 = Inr encrypted1"
    using aead c2 unfolding aead_correct_def by blast
  have d1: "decipher P AES_256_GCM key1 i1 None tag1 encrypted1 = Inr (utf8_encode data)"
    using aead c1 unfolding aead_correct_def by blast
  show ?thesis
    using decrypt_layer1 [of P this ed key2 encrypted1 key1 w2] k1 k2 d1 d2
    by (simp add: ed b64id)
qed

text \<open>
  So encrypting and decrypting gives the text as it is after a pass through UTF-8,
  unless \<open>encrypt\<close> itself fails.
\<close>

lemma roundtrip_decoded:
  assumes "aead_correct P" and "base64_lossless P"
  shows "roundtrip P this data w =
           (case fst (encrypt P this data w) of
              Inl e \<Rightarrow> Inl e
            | Inr ed \<Rightarrow> Inr (utf8_decode (utf8_encode data)))"
proof (cases "encrypt P this data w")
  case (fields r this' w')
  show ?thesis
  proof (cases r)
    case (Inl e)
    with fields show ?thesis by (simp add: roundtrip_def)
  next
    case (Inr ed)
    with fields have enc: "encrypt P this data w = (Inr ed, this', w')"
      by simp
    have "this' = this"
      using encrypt_this [of P this data w] enc by simp
    then show ?thesis
      using decrypt_encrypt [OF assms enc, of w'] enc by (simp add: roundtrip_def)
  qed
qed

section \<open>The instances meet the conditions\<close>

lemma sample_aead_correct: "aead_correct sample_node"
  by (auto simp: aead_correct_def sample_node_def sample_cipher_def sample_decipher_def
      Let_def comp_def)

lemma sample_base64_lossless: "base64_lossless sample_node"
proof -
  have "ucast (ucast b :: 16 word) = b" for b :: byte
    by (rule ucast_up_ucast_id) (simp add: is_up)
  then show ?thesis
    by (simp add: base64_lossless_def sample_node_def comp_def)
qed

lemma sample_random_lengths: "random_lengths sample_node"
  by (simp add: random_lengths_def sample_node_def sample_randomBytes_def)

lemma first_byte_replicate: "0 < n \<Longrightarrow> first_byte (replicate n b) = b"
  by (cases n) (simp_all add: first_byte_def)

lemma first_byte_Cons: "first_byte (b # bs) = b"
  by (simp add: first_byte_def)

lemma utf8_encode_hi: "utf8_encode [0x68, 0x69] = [0x68, 0x69]"
  by (simp add: utf8_encode_def unit_code_point_def is_surrogate_def is_lead_def utf8_bytes_def)

lemma sample_encrypt_hi:
  "encrypt sample_node sample_this [0x68, 0x69] sample_world =
     (Inr sample_encrypted, sample_this,
      \<lparr>rng = 11,
       calls = [RandomBytes 16, Scrypt (replicate 16 7), RandomBytes 12, Cipheriv AES_256_GCM,
                RandomBytes 16, Scrypt (replicate 16 9), RandomBytes 12,
                Cipheriv CHACHA20_POLY1305]\<rparr>)"
  by (simp add: encrypt_def deriveKey_pair derived_key_def crypto_randomBytes_def
      crypto_cipher_def sample_node_def sample_this_def DyCrypt_new_def sample_world_def
      sample_randomBytes_def sample_scrypt_def sample_cipher_def sample_tag_def
      sample_encrypted_def first_byte_replicate utf8_encode_hi
      utf8_encode_def [of "[0x70, 0x77]"] unit_code_point_def is_surrogate_def is_lead_def utf8_bytes_def first_byte_Cons)

lemma utf8_attack_at_dawn: "length (utf8_encode attack_at_dawn) = 14"
  by (simp add: attack_at_dawn_def utf8_encode_def unit_code_point_def is_surrogate_def
      is_lead_def utf8_bytes_def)

lemma sample_encrypt_succeeds:
  "\<exists>ed w'. encrypt sample_node this data w = (Inr ed, this, w')"
  by (simp add: encrypt_def Let_def deriveKey_pair derived_key_def crypto_randomBytes_def
      crypto_cipher_def sample_node_def sample_scrypt_def sample_cipher_def
      split: prod.splits)

lemma sample_key2:
  "derived_key sample_node sample_this (fromBase64 sample_node (replicate 16 9)) =
     Inr (replicate 32 121)"
  by (simp add: derived_key_def sample_node_def sample_this_def DyCrypt_new_def sample_scrypt_def
      first_byte_replicate utf8_encode_def unit_code_point_def is_surrogate_def is_lead_def
      utf8_bytes_def first_byte_Cons)


lemma sample_layer2_rejects:
  "decipher sample_node CHACHA20_POLY1305 (replicate 32 121)
     (fromBase64 sample_node (replicate 12 10)) (Some 16)
     (fromBase64 sample_node (replicate 16 0)) (fromBase64 sample_node [88, 89]) =
   Inl UnableToAuthenticate"
  by (simp add: sample_node_def sample_decipher_def sample_tag_def first_byte_replicate)



lemma sample_decrypt_hi:
  "fst (decrypt sample_node sample_this sample_encrypted w) = Inr [0x68, 0x69]"
proof -
  have "well_formed [0x68, 0x69]"
    by (simp add: is_lead_def is_surrogate_def)
  then show ?thesis
    using decrypt_encrypt [OF sample_aead_correct sample_base64_lossless sample_encrypt_hi, of w]
    by (simp add: utf8_roundtrip)
qed

text \<open>The second instance meets all four conditions.\<close>

lemma strict_cipher_lengths: "cipher_lengths strict_node"
  by (auto simp: cipher_lengths_def strict_node_def strict_cipher_def sample_tag_def
      split: if_splits)

lemma strict_random_lengths: "random_lengths strict_node"
  by (simp add: random_lengths_def strict_node_def sample_randomBytes_def)

lemma strict_base64_lossless: "base64_lossless strict_node"
  using sample_base64_lossless
  by (simp add: base64_lossless_def strict_node_def sample_node_def)

lemma strict_aead_correct: "aead_correct strict_node"
  by (auto simp: aead_correct_def strict_node_def strict_cipher_def strict_decipher_def
      sample_tag_def Let_def comp_def split: if_splits)

lemma strict_encrypt_succeeds:
  "\<exists>ed w'. encrypt strict_node this data w = (Inr ed, this, w')"
  by (simp add: encrypt_def Let_def deriveKey_pair derived_key_def crypto_randomBytes_def
      crypto_cipher_def strict_node_def sample_scrypt_def strict_cipher_def tag_length_def
      split: prod.splits)






section \<open>Properties of the class\<close>

text \<open>
  C1, as amended. For every password and every well-formed text (every surrogate in
  it is part of a pair; the empty text is one), decrypting what \<open>encrypt\<close> returned, with
  the same object, gives the text back. The primitives are any that satisfy the
  correctness of AEAD and a base64 codec that loses nothing.
\<close>

theorem decrypt_encrypt_well_formed:
  assumes "aead_correct P" and "base64_lossless P" and "well_formed data"
    and "encrypt P this data w = (Inr ed, this', w')"
  shows "this' = this \<and> fst (decrypt P this' ed w2) = Inr data"
proof -
  have "this' = this"
    using encrypt_this [of P this data w] assms(4) by simp
  then show ?thesis
    using decrypt_encrypt [OF assms(1,2,4), of w2] utf8_roundtrip [OF assms(3)] by simp
qed

theorem decrypt_encrypt_well_formed_witness:
  "aead_correct sample_node \<and> base64_lossless sample_node \<and> well_formed [0x68, 0x69] \<and>
   fst (encrypt sample_node sample_this [0x68, 0x69] sample_world) = Inr sample_encrypted \<and>
   fst (decrypt sample_node sample_this sample_encrypted sample_world) = Inr [0x68, 0x69]"
proof -
  have wf: "well_formed [0x68, 0x69]"
    by (simp add: is_lead_def is_surrogate_def)
  from decrypt_encrypt_well_formed [OF sample_aead_correct sample_base64_lossless wf
      sample_encrypt_hi, of sample_world]
  show ?thesis
    using sample_aead_correct sample_base64_lossless wf sample_encrypt_hi by simp
qed

text \<open>
  C1 as it stands, for every text, fails for a text with a surrogate that has no
  partner: the text of the single code unit D800 comes back as the replacement
  character FFFD.
\<close>

theorem roundtrip_lone_surrogate:
  "roundtrip sample_node sample_this [0xD800] sample_world = Inr [0xFFFD] \<and>
   roundtrip sample_node sample_this [0xD800] sample_world \<noteq> Inr [0xD800]"
proof -
  obtain ed w' where "encrypt sample_node sample_this [0xD800] sample_world = (Inr ed, sample_this, w')"
    using sample_encrypt_succeeds by blast
  then have "roundtrip sample_node sample_this [0xD800] sample_world = Inr [0xFFFD]"
    using roundtrip_decoded [OF sample_aead_correct sample_base64_lossless,
        of sample_this "[0xD800]" sample_world]
    by (simp add: utf8_lone_surrogate)
  then show ?thesis by simp
qed

text \<open>
  This does not depend on the primitives, and the well-formed texts are exactly those
  that come back.
\<close>

lemma decrypt_encrypt_lone_surrogate:
  assumes "aead_correct P" and "base64_lossless P"
    and "encrypt P this [0xD800] w = (Inr ed, this', w')"
  shows "fst (decrypt P this ed w2) = Inr [0xFFFD]"
  using decrypt_encrypt [OF assms, of w2] by (simp add: utf8_lone_surrogate)

lemma decrypt_encrypt_iff:
  assumes "aead_correct P" and "base64_lossless P"
    and "encrypt P this data w = (Inr ed, this', w')"
  shows "fst (decrypt P this ed w2) = Inr data \<longleftrightarrow> well_formed data"
  using decrypt_encrypt [OF assms, of w2] by (simp add: utf8_roundtrip_iff)

text \<open>
  C2. \<open>decrypt\<close> works through the layers in the reverse order: the calls it makes
  are a beginning of the key of layer 2, ChaCha20-Poly1305, the key of layer 1,
  AES-256-GCM, and all four when it returns a text. When the tag of layer 2 does not
  verify (or layer 2 fails in another way), the error is the result, there is no text,
  and only the key of layer 2 and ChaCha20-Poly1305 have been called: neither the key
  of layer 1 nor AES-256-GCM.
\<close>

theorem decrypt_reverse_order:
  "(\<exists>n>0. calls (snd (snd (decrypt P this ed w))) = calls w @ take n (layer_calls P ed)) \<and>
   (\<forall>text. fst (decrypt P this ed w) = Inr text \<longrightarrow>
      calls (snd (snd (decrypt P this ed w))) = calls w @ layer_calls P ed) \<and>
   (derived_key P this (fromBase64 P (EncryptedData.salt2 ed)) = Inr key2 \<and>
    decipher P CHACHA20_POLY1305 key2 (fromBase64 P (EncryptedData.iv2 ed)) (Some 16)
      (fromBase64 P (EncryptedData.authTag2 ed)) (fromBase64 P (ciphertext ed)) = Inl e \<longrightarrow>
    decrypt P this ed w =
      (Inl e, this,
       w\<lparr>calls := calls w @ [Scrypt (fromBase64 P (EncryptedData.salt2 ed)),
                              Decipheriv CHACHA20_POLY1305]\<rparr>))"
proof -
  let ?k2 = "derived_key P this (fromBase64 P (EncryptedData.salt2 ed))"
  let ?k1 = "derived_key P this (fromBase64 P (EncryptedData.salt1 ed))"
  let ?d2 = "\<lambda>key2. decipher P CHACHA20_POLY1305 key2 (fromBase64 P (EncryptedData.iv2 ed))
      (Some 16) (fromBase64 P (EncryptedData.authTag2 ed)) (fromBase64 P (ciphertext ed))"
  let ?d1 = "\<lambda>key1 decrypted2. decipher P AES_256_GCM key1 (fromBase64 P (EncryptedData.iv1 ed))
      None (fromBase64 P (EncryptedData.authTag1 ed)) decrypted2"
  let ?after = "calls (snd (snd (decrypt P this ed w)))"
  let ?prefix = "\<lambda>n. ?after = calls w @ take n (layer_calls P ed)"
  let ?whole = "\<forall>text. fst (decrypt P this ed w) = Inr text \<longrightarrow>
      ?after = calls w @ layer_calls P ed"
  have two: "take 2 xs = take (Suc (Suc 0)) xs" and three: "take 3 xs = take (Suc (Suc (Suc 0))) xs"
    for xs :: "call list"
    by (simp_all add: numeral_2_eq_2 numeral_3_eq_3)
  consider (key2) e where "?k2 = Inl e"
    | (layer2) key2 e where "?k2 = Inr key2" "?d2 key2 = Inl e"
    | (key1) key2 decrypted2 e where "?k2 = Inr key2" "?d2 key2 = Inr decrypted2" "?k1 = Inl e"
    | (layer1) key2 decrypted2 key1 where "?k2 = Inr key2" "?d2 key2 = Inr decrypted2"
        "?k1 = Inr key1"
    by (metis sum.exhaust)
  then have "(\<exists>n>0. ?prefix n) \<and> ?whole"
  proof cases
    case key2
    then have "?prefix 1" and ?whole
      by (simp_all add: decrypt_key2_fails layer_calls_def)
    then show ?thesis by (metis zero_less_one)
  next
    case layer2
    then have "?prefix 2" and ?whole
      by (simp_all add: decrypt_layer2_fails layer_calls_def two)
    then show ?thesis by (metis zero_less_numeral)
  next
    case key1
    then have "?prefix 3" and ?whole
      by (simp_all add: decrypt_key1_fails layer_calls_def three)
    then show ?thesis by (metis zero_less_numeral)
  next
    case layer1
    then have "?prefix 4" and ?whole
      by (simp_all add: decrypt_layer1 layer_calls_def)
    then show ?thesis by (metis zero_less_numeral)
  qed
  then show ?thesis
    by (simp add: decrypt_layer2_fails)
qed

theorem decrypt_reverse_order_witness:
  "decrypt sample_node sample_this (sample_encrypted\<lparr>EncryptedData.authTag2 := replicate 16 0\<rparr>)
     sample_world =
   (Inl UnableToAuthenticate, sample_this,
    sample_world\<lparr>calls := [Scrypt (replicate 16 9), Decipheriv CHACHA20_POLY1305]\<rparr>) \<and>
   fst (decrypt sample_node sample_this sample_encrypted sample_world) = Inr [0x68, 0x69] \<and>
   calls (snd (snd (decrypt sample_node sample_this sample_encrypted sample_world))) =
     [Scrypt (replicate 16 9), Decipheriv CHACHA20_POLY1305,
      Scrypt (replicate 16 7), Decipheriv AES_256_GCM]"
proof -
  have "decrypt sample_node sample_this
          (sample_encrypted\<lparr>EncryptedData.authTag2 := replicate 16 0\<rparr>) sample_world =
        (Inl UnableToAuthenticate, sample_this,
         sample_world\<lparr>calls := [Scrypt (replicate 16 9), Decipheriv CHACHA20_POLY1305]\<rparr>)"
    using decrypt_reverse_order [of sample_node sample_this
        "sample_encrypted\<lparr>EncryptedData.authTag2 := replicate 16 0\<rparr>" sample_world
        "replicate 32 121" UnableToAuthenticate]
      sample_key2 sample_layer2_rejects
    by (simp add: sample_encrypted_def sample_world_def) (simp add: sample_node_def)
  moreover have "calls (snd (snd (decrypt sample_node sample_this sample_encrypted sample_world))) =
     [Scrypt (replicate 16 9), Decipheriv CHACHA20_POLY1305,
      Scrypt (replicate 16 7), Decipheriv AES_256_GCM]"
    using decrypt_reverse_order [of sample_node sample_this sample_encrypted sample_world]
      sample_decrypt_hi [of sample_world]
    by (simp add: layer_calls_def sample_encrypted_def sample_world_def) (simp add: sample_node_def)
  ultimately show ?thesis
    using sample_decrypt_hi [of sample_world] by simp
qed




text \<open>
  C9, as amended. The password is given once, to the constructor, which keeps its UTF-8
  bytes in the field \<open>masterPassword\<close> of the object; \<open>encrypt\<close> and \<open>decrypt\<close>
  take no password and leave the object as it is, so the object holds the bytes of the
  password after each call.
\<close>

theorem password_retained:
  "masterPassword (DyCrypt_new password) = utf8_encode password \<and>
   fst (snd (encrypt P this data w)) = this \<and>
   fst (snd (decrypt P this ed w)) = this"
  by (simp add: DyCrypt_new_def encrypt_this decrypt_this)

text \<open>
  C9 as it stands fails: after \<open>encrypt\<close> and after \<open>decrypt\<close> have returned,
  the object made from the password "pw" holds the two bytes of "pw".
\<close>

theorem password_held_after_call:
  "masterPassword (fst (snd (encrypt sample_node (DyCrypt_new [0x70, 0x77]) [0x68, 0x69]
      sample_world))) = [0x70, 0x77] \<and>
   masterPassword (fst (snd (decrypt sample_node (DyCrypt_new [0x70, 0x77]) sample_encrypted
      sample_world))) = [0x70, 0x77]"
  by (simp add: encrypt_this decrypt_this DyCrypt_new_def utf8_encode_def unit_code_point_def
      is_surrogate_def is_lead_def utf8_bytes_def)

text \<open>
  C8. Neither layer adds padding. \<open>encrypt\<close> gives the UTF-8 bytes of the text to
  AES-256-GCM and what comes out to ChaCha20-Poly1305, and returns the output of the
  second as the ciphertext and the two tags as they are. With ciphers that return as
  many bytes as they are given and a tag of the length asked for (the stream modes of
  \<open>node:crypto\<close>), the output of each layer is as long as its input, and packing the
  result gives a container of 88 bytes and the ciphertext: 88 bytes more than the
  text has in UTF-8. For the 14 bytes of "attack at dawn" these are 102 bytes.
\<close>

theorem container_length:
  assumes "cipher_lengths P" and "random_lengths P" and "base64_lossless P"
    and "encrypt P (DyCrypt_new password) data w = (Inr ed, this', w')"
  shows "\<exists>key1 key2 encrypted1 encrypted2 tag1 tag2.
           derived_key P (DyCrypt_new password) (fromBase64 P (EncryptedData.salt1 ed)) =
             Inr key1 \<and>
           cipher P AES_256_GCM key1 (fromBase64 P (EncryptedData.iv1 ed)) None
             (utf8_encode data) = Inr (encrypted1, tag1) \<and>
           length encrypted1 = length (utf8_encode data) \<and>
           derived_key P (DyCrypt_new password) (fromBase64 P (EncryptedData.salt2 ed)) =
             Inr key2 \<and>
           cipher P CHACHA20_POLY1305 key2 (fromBase64 P (EncryptedData.iv2 ed)) (Some 16)
             encrypted1 = Inr (encrypted2, tag2) \<and>
           length encrypted2 = length encrypted1 \<and>
           fromBase64 P (EncryptedData.authTag1 ed) = tag1 \<and>
           fromBase64 P (EncryptedData.authTag2 ed) = tag2 \<and>
           fromBase64 P (ciphertext ed) = encrypted2 \<and>
           (\<exists>packed. pack_encrypted P mem ed = Inr packed \<and>
              length packed = 88 + length (utf8_encode data) \<and>
              drop 88 packed = encrypted2)"
proof -
  let ?this = "DyCrypt_new password"
  from assms(4) obtain s1 key1 i1 encrypted1 tag1 s2 key2 i2 encrypted2 tag2 g1 g2 g3 g4 where
    s1: "s1 = fst (randomBytes P (saltLength (scryptParams ?this)) g1)"
    and k1: "derived_key P ?this s1 = Inr key1"
    and i1: "i1 = fst (randomBytes P 12 g2)"
    and c1: "cipher P AES_256_GCM key1 i1 None (utf8_encode data) = Inr (encrypted1, tag1)"
    and s2: "s2 = fst (randomBytes P (saltLength (scryptParams ?this)) g3)"
    and k2: "derived_key P ?this s2 = Inr key2"
    and i2: "i2 = fst (randomBytes P 12 g4)"
    and c2: "cipher P CHACHA20_POLY1305 key2 i2 (Some 16) encrypted1 = Inr (encrypted2, tag2)"
    and ed: "ed = \<lparr>EncryptedData.salt1 = toBase64 P s1, EncryptedData.salt2 = toBase64 P s2,
           EncryptedData.iv1 = toBase64 P i1, EncryptedData.iv2 = toBase64 P i2,
           EncryptedData.authTag1 = toBase64 P tag1, EncryptedData.authTag2 = toBase64 P tag2,
           ciphertext = toBase64 P encrypted2\<rparr>"
    by (rule encrypt_success)
  have b64id: "fromBase64 P (toBase64 P buf) = buf" for buf
    using assms(3) by (simp add: base64_lossless_def)
  have rnd: "length (fst (randomBytes P n g)) = n" for n g
    using assms(2) by (simp add: random_lengths_def)
  have "length encrypted1 = length (utf8_encode data) \<and> length tag1 = tag_length None"
    using assms(1) c1 unfolding cipher_lengths_def by blast
  then have l1: "length encrypted1 = length (utf8_encode data)" "length tag1 = 16"
    by (simp_all add: tag_length_def)
  have "length encrypted2 = length encrypted1 \<and> length tag2 = tag_length (Some 16)"
    using assms(1) c2 unfolding cipher_lengths_def by blast
  then have l2: "length encrypted2 = length encrypted1" "length tag2 = 16"
    by (simp_all add: tag_length_def)
  have valid: "valid_lengths s1 s2 i1 i2 tag1 tag2"
    using l1 l2 by (simp add: valid_lengths_def s1 s2 i1 i2 rnd DyCrypt_new_def)
  have header: "length (s1 @ s2 @ i1 @ i2 @ tag1 @ tag2) = 88"
    using valid_lengthsD [OF valid] by simp
  have packed: "pack_encrypted P mem ed = Inr (s1 @ s2 @ i1 @ i2 @ tag1 @ tag2 @ encrypted2)"
    using packData_valid [OF valid, of mem encrypted2]
    by (simp add: pack_encrypted_def ed b64id)
  have len: "length (s1 @ s2 @ i1 @ i2 @ tag1 @ tag2 @ encrypted2) =
      88 + length (utf8_encode data)"
    using header l1 l2 by simp
  have payload: "drop 88 (s1 @ s2 @ i1 @ i2 @ tag1 @ tag2 @ encrypted2) = encrypted2"
    using header by simp
  have "\<exists>packed. pack_encrypted P mem ed = Inr packed \<and>
              length packed = 88 + length (utf8_encode data) \<and>
              drop 88 packed = encrypted2"
    using packed len payload by blast
  then show ?thesis
    using k1 c1 l1(1) k2 c2 l2(1) by (simp add: ed b64id)
qed

theorem container_length_witness:
  "cipher_lengths strict_node \<and> random_lengths strict_node \<and> base64_lossless strict_node \<and>
   length (utf8_encode attack_at_dawn) = 14 \<and>
   (\<exists>ed. fst (encrypt strict_node (DyCrypt_new correct_horse) attack_at_dawn sample_world) =
           Inr ed \<and>
         length (fromBase64 strict_node (ciphertext ed)) = 14 \<and>
         (\<exists>packed. pack_encrypted strict_node (\<lambda>_. 0) ed = Inr packed \<and>
            length packed = 102))"
proof -
  obtain ed w' where enc: "encrypt strict_node (DyCrypt_new correct_horse) attack_at_dawn
      sample_world = (Inr ed, DyCrypt_new correct_horse, w')"
    using strict_encrypt_succeeds by blast
  from container_length [OF strict_cipher_lengths strict_random_lengths strict_base64_lossless
      enc, of "\<lambda>_. 0"]
  have "length (fromBase64 strict_node (ciphertext ed)) = 14 \<and>
    (\<exists>packed. pack_encrypted strict_node (\<lambda>_. 0) ed = Inr packed \<and> length packed = 102)"
    by (auto simp: utf8_attack_at_dawn)
  then show ?thesis
    using enc strict_cipher_lengths strict_random_lengths strict_base64_lossless
      utf8_attack_at_dawn
    by auto
qed

end
